theory Spec2Isabelle
  imports Main "HOL-Library.Word" "HOL-Library.Monad_Syntax"
begin

unbundle bit_operations_syntax

section \<open>JavaScript data\<close>

text \<open>
  A \<^verbatim>\<open>Uint8Array\<close> is a list of 8-bit words, a JavaScript string is the list of its
  UTF-16 code units, and the bitwise operators of JavaScript act on the 32-bit image of
  their operands, so the CRC register is a 32-bit word (\<^verbatim>\<open>>>> 0\<close> reads that image as
  unsigned).
\<close>

type_synonym byte = "8 word"
type_synonym bytes = "8 word list"
type_synonym u32 = "32 word"
type_synonym jsstring = "16 word list"

text \<open>A string literal of the source: each character becomes one code unit.\<close>

definition js :: "string \<Rightarrow> jsstring" where
  "js s = map of_char s"

text \<open>The bytes of an ASCII text (a test vector).\<close>

definition ascii :: "string \<Rightarrow> bytes" where
  "ascii s = map of_char s"

section \<open>Checksum: \<^verbatim>\<open>crc32\<close>\<close>

text \<open>
  \<^verbatim>\<open>
  function crc32(b) {
    var c = 0xffffffff;
    for (var i = 0; i < b.length; i++) {
      c ^= b[i];
      for (var j = 0; j < 8; j++) c = (c >>> 1) ^ (c & 1 ? 0xedb88320 : 0);
    }
    return (c ^ 0xffffffff) >>> 0;
  }
  \<close>
  The same function, with longer names, is \<^verbatim>\<open>crc32\<close> of scrapeIntents.js. The inner
  loop is \<open>crc32_bits\<close> (from \<open>j\<close> up to 8), the outer one \<open>crc32_loop\<close>
  (from \<open>i\<close> up to the length).
\<close>

function crc32_bits :: "nat \<Rightarrow> u32 \<Rightarrow> u32" where
  "crc32_bits j c =
     (if j < 8
      then crc32_bits (j + 1) (drop_bit 1 c XOR (if c AND 1 \<noteq> 0 then 0xedb88320 else 0))
      else c)"
  by pat_completeness auto
termination
  by (relation "measure (\<lambda>(j, c). 8 - j)") auto

function crc32_loop :: "bytes \<Rightarrow> nat \<Rightarrow> u32 \<Rightarrow> u32" where
  "crc32_loop b i c =
     (if i < length b
      then crc32_loop b (i + 1) (crc32_bits 0 (c XOR ucast (b ! i)))
      else c)"
  by pat_completeness auto
termination
  by (relation "measure (\<lambda>(b, i, c). length b - i)") auto

definition crc32 :: "bytes \<Rightarrow> u32" where
  "crc32 b = crc32_loop b 0 0xffffffff XOR 0xffffffff"

subsection \<open>The reference CRC-32, in the words of the specification\<close>

text \<open>
  Register initialised to \<open>0xFFFFFFFF\<close>; each byte is XORed into the low byte of the
  register, then eight times: if the low bit is set, shift right and XOR with
  \<open>0xEDB88320\<close>, else shift right; the final register is XORed with \<open>0xFFFFFFFF\<close>.
\<close>

definition crc32_ref_shift :: "u32 \<Rightarrow> u32" where
  "crc32_ref_shift c = (if bit c 0 then drop_bit 1 c XOR 0xEDB88320 else drop_bit 1 c)"

definition crc32_ref_byte :: "u32 \<Rightarrow> byte \<Rightarrow> u32" where
  "crc32_ref_byte c b = (crc32_ref_shift ^^ 8) (c XOR ucast b)"

definition crc32_ref :: "bytes \<Rightarrow> u32" where
  "crc32_ref bs = foldl crc32_ref_byte 0xFFFFFFFF bs XOR 0xFFFFFFFF"

section \<open>Rows and their values\<close>

text \<open>
  A row is an object whose properties hold text; a property can also be missing, or hold
  \<^verbatim>\<open>null\<close> or \<^verbatim>\<open>undefined\<close>. Reading a missing property gives \<^verbatim>\<open>undefined\<close>.
  A failed operation (a \<^verbatim>\<open>TypeError\<close> for a method call on \<^verbatim>\<open>null\<close> or
  \<^verbatim>\<open>undefined\<close>, a \<^verbatim>\<open>RangeError\<close> for a write outside a buffer) is the value
  \<open>None\<close>.
\<close>

datatype jsval = JUndefined | JNull | JStr jsstring

type_synonym row = "jsstring \<Rightarrow> jsval option"

definition get_prop :: "row \<Rightarrow> jsstring \<Rightarrow> jsval" where
  "get_prop rw k = (case rw k of None \<Rightarrow> JUndefined | Some v \<Rightarrow> v)"

fun truthy :: "jsval \<Rightarrow> bool" where
  "truthy JUndefined = False"
| "truthy JNull = False"
| "truthy (JStr s) = (s \<noteq> [])"

text \<open>\<^verbatim>\<open>v || ''\<close>\<close>

definition or_empty :: "jsval \<Rightarrow> jsval" where
  "or_empty v = (if truthy v then v else JStr [])"

text \<open>\<^verbatim>\<open>String(v)\<close>\<close>

fun ToString :: "jsval \<Rightarrow> jsstring" where
  "ToString JUndefined = js ''undefined''"
| "ToString JNull = js ''null''"
| "ToString (JStr s) = s"

text \<open>
  \<^verbatim>\<open>s.replace(/c/g, r)\<close> for a pattern of one character \<open>c\<close> and a replacement
  \<open>r\<close> without \<^verbatim>\<open>$\<close>: every occurrence of \<open>c\<close>, left to right, becomes \<open>r\<close>.
\<close>

fun replace_all :: "16 word \<Rightarrow> jsstring \<Rightarrow> jsstring \<Rightarrow> jsstring" where
  "replace_all c r [] = []"
| "replace_all c r (x # xs) =
     (if x = c then r @ replace_all c r xs else x # replace_all c r xs)"

text \<open>The same call as a method of a value: \<^verbatim>\<open>null\<close> and \<^verbatim>\<open>undefined\<close> have no
  methods.\<close>

fun replace_method :: "jsval \<Rightarrow> 16 word \<Rightarrow> jsstring \<Rightarrow> jsstring option" where
  "replace_method (JStr s) c r = Some (replace_all c r s)"
| "replace_method JUndefined c r = None"
| "replace_method JNull c r = None"

text \<open>\<^verbatim>\<open>xs.join(sep)\<close> on an array of strings.\<close>

fun array_join :: "jsstring \<Rightarrow> jsstring list \<Rightarrow> jsstring" where
  "array_join sep [] = []"
| "array_join sep [x] = x"
| "array_join sep (x # y # ys) = x @ sep @ array_join sep (y # ys)"

text \<open>The decimal text of a non-negative integer, as \<^verbatim>\<open>'' + n\<close> gives it.\<close>

function number_to_string :: "nat \<Rightarrow> jsstring" where
  "number_to_string n =
     (if n < 10 then [of_nat (48 + n)]
      else number_to_string (n div 10) @ [of_nat (48 + n mod 10)])"
  by pat_completeness auto
termination
  by (relation "measure (\<lambda>n. n)") auto

definition fromCharCode :: "int \<Rightarrow> 16 word" where
  "fromCharCode n = word_of_int n"

definition AMP :: "16 word" where "AMP = of_char CHR ''&''"
definition LT :: "16 word" where "LT = of_char CHR ''<''"
definition GT :: "16 word" where "GT = of_char CHR ''>''"
definition QUOT :: "16 word" where "QUOT = of_char (CHR 0x22)"
definition NL :: "16 word" where "NL = of_char (CHR 0x0A)"

section \<open>Worksheet XML: \<^verbatim>\<open>downloadExcel\<close>\<close>

definition headers :: "jsstring list" where
  "headers = map js [''Category'', ''Topic'', ''Intent'', ''Intent Percentage'', ''Volume'',
     ''Examples'', ''Active'']"

definition keys :: "jsstring list" where
  "keys = map js [''category'', ''topic'', ''intent'', ''intentPercentage'', ''volume'',
     ''examples'', ''active'']"

subsection \<open>Escaping\<close>

text \<open>
  scrapeIntentsBrowser.js:
  \<^verbatim>\<open>
  function esc(s) {
    if (s == null) return '';
    return String(s).replace(/&/g,'&amp;').replace(/</g,'&lt;').replace(/>/g,'&gt;')
                    .replace(/"/g,'&quot;').replace(/\n/g,'&#10;');
  }
  \<close>
\<close>

definition esc :: "jsval \<Rightarrow> jsstring" where
  "esc s =
     (if s = JNull \<or> s = JUndefined then []
      else replace_all NL (js ''&#10;'')
             (replace_all QUOT (js ''&quot;'')
               (replace_all GT (js ''&gt;'')
                 (replace_all LT (js ''&lt;'')
                   (replace_all AMP (js ''&amp;'') (ToString s))))))"

text \<open>
  scrapeIntents.js has the function twice, as \<^verbatim>\<open>esc\<close> and as \<^verbatim>\<open>escapeXml\<close>, both
  without the last replacement:
  \<^verbatim>\<open>
  function escapeXml(s) {
    if (s == null) return '';
    return String(s).replace(/&/g, '&amp;').replace(/</g, '&lt;')
                    .replace(/>/g, '&gt;').replace(/"/g, '&quot;');
  }
  \<close>
\<close>

definition escapeXml :: "jsval \<Rightarrow> jsstring" where
  "escapeXml s =
     (if s = JNull \<or> s = JUndefined then []
      else replace_all QUOT (js ''&quot;'')
             (replace_all GT (js ''&gt;'')
               (replace_all LT (js ''&lt;'')
                 (replace_all AMP (js ''&amp;'') (ToString s)))))"

text \<open>The escaping rule of the specification, character by character.\<close>

definition esc_char :: "16 word \<Rightarrow> jsstring" where
  "esc_char x =
     (if x = AMP then js ''&amp;''
      else if x = LT then js ''&lt;''
      else if x = GT then js ''&gt;''
      else if x = QUOT then js ''&quot;''
      else if x = NL then js ''&#10;''
      else [x])"

subsection \<open>Column letters\<close>

text \<open>
  \<^verbatim>\<open>
  function col(i) {
    var s = ''; i++;
    while (i > 0) { i--; s = String.fromCharCode(65 + (i % 26)) + s; i = Math.floor(i / 26); }
    return s;
  }
  \<close>
  \<^verbatim>\<open>colLetter\<close> of scrapeIntents.js is the same function.
\<close>

function col_loop :: "int \<Rightarrow> jsstring \<Rightarrow> jsstring" where
  "col_loop i s =
     (if i > 0
      then col_loop ((i - 1) div 26) (fromCharCode (65 + (i - 1) mod 26) # s)
      else s)"
  by pat_completeness auto
termination
  by (relation "measure (\<lambda>(i, s). nat i)") auto

definition col :: "int \<Rightarrow> jsstring" where
  "col i = col_loop (i + 1) []"

subsection \<open>Sheet rows of scrapeIntentsBrowser.js\<close>

text \<open>
  \<^verbatim>\<open>
  var sr = '<row r="1">';
  for (var c = 0; c < headers.length; c++) {
    sr += '<c r="' + col(c) + '1" t="inlineStr" s="1"><is><t>' + esc(headers[c]) + '</t></is></c>';
  }
  sr += '</row>';
  for (var r = 0; r < data.length; r++) {
    var rn = r + 2;
    sr += '<row r="' + rn + '">';
    for (var c2 = 0; c2 < keys.length; c2++) {
      var style = c2 === 5 ? ' s="2"' : '';
      sr += '<c r="' + col(c2) + rn + '" t="inlineStr"' + style + '><is><t>'
            + esc(data[r][keys[c2]] || '') + '</t></is></c>';
    }
    sr += '</row>';
  }
  \<close>
  \<open>header_cell\<close> and \<open>data_cell\<close> are the texts appended in the two inner iterations.
\<close>

definition header_cell :: "nat \<Rightarrow> jsstring" where
  \<open>header_cell c =
     js ''<c r="'' @ col (int c) @ js ''1" t="inlineStr" s="1"><is><t>''
       @ esc (JStr (headers ! c)) @ js ''</t></is></c>''\<close>

function header_loop :: "nat \<Rightarrow> jsstring \<Rightarrow> jsstring" where
  "header_loop c sr =
     (if c < length headers then header_loop (c + 1) (sr @ header_cell c) else sr)"
  by pat_completeness auto
termination
  by (relation "measure (\<lambda>(c, sr). length headers - c)") auto

definition data_cell :: "row \<Rightarrow> nat \<Rightarrow> nat \<Rightarrow> jsstring" where
  \<open>data_cell rw rn c2 =
     (let style = (if c2 = 5 then js '' s="2"'' else [])
      in js ''<c r="'' @ col (int c2) @ number_to_string rn @ js ''" t="inlineStr"'' @ style
           @ js ''><is><t>'' @ esc (or_empty (get_prop rw (keys ! c2))) @ js ''</t></is></c>'')\<close>

function cells_loop :: "row \<Rightarrow> nat \<Rightarrow> nat \<Rightarrow> jsstring \<Rightarrow> jsstring" where
  "cells_loop rw rn c2 sr =
     (if c2 < length keys then cells_loop rw rn (c2 + 1) (sr @ data_cell rw rn c2) else sr)"
  by pat_completeness auto
termination
  by (relation "measure (\<lambda>(rw, rn, c2, sr). length keys - c2)") auto

function rows_loop :: "row list \<Rightarrow> nat \<Rightarrow> jsstring \<Rightarrow> jsstring" where
  \<open>rows_loop data r sr =
     (if r < length data
      then (let rn = r + 2
            in rows_loop data (r + 1)
                 (cells_loop (data ! r) rn 0 (sr @ js ''<row r="'' @ number_to_string rn @ js ''">'')
                    @ js ''</row>''))
      else sr)\<close>
  by pat_completeness auto
termination
  by (relation "measure (\<lambda>(data, r, sr). length data - r)") auto

definition sheet_sr :: "row list \<Rightarrow> jsstring" where
  \<open>sheet_sr data = rows_loop data 0 (header_loop 0 (js ''<row r="1">'') @ js ''</row>'')\<close>

subsection \<open>Sheet rows of scrapeIntents.js\<close>

text \<open>
  \<^verbatim>\<open>
  for (let r = 0; r < data.length; r++) {
    const rowNum = r + 2;
    sheetRows += `<row r="${rowNum}">`;
    for (let c = 0; c < keys.length; c++) {
      const ref = colLetter(c) + rowNum;
      const val = data[r][keys[c]] || '';
      sheetRows += `<c r="${ref}" t="inlineStr"><is><t>${escapeXml(val)}</t></is></c>`;
    }
    sheetRows += '</row>';
  }
  \<close>
  The header row is built as in the browser script, with \<^verbatim>\<open>escapeXml\<close>.
\<close>

definition sheetRows_header_cell :: "nat \<Rightarrow> jsstring" where
  \<open>sheetRows_header_cell c =
     (let ref = col (int c) @ js ''1''
      in js ''<c r="'' @ ref @ js ''" t="inlineStr" s="1"><is><t>''
           @ escapeXml (JStr (headers ! c)) @ js ''</t></is></c>'')\<close>

function sheetRows_header :: "nat \<Rightarrow> jsstring \<Rightarrow> jsstring" where
  "sheetRows_header c sheetRows =
     (if c < length headers
      then sheetRows_header (c + 1) (sheetRows @ sheetRows_header_cell c)
      else sheetRows)"
  by pat_completeness auto
termination
  by (relation "measure (\<lambda>(c, sr). length headers - c)") auto

definition sheetRows_cell :: "row \<Rightarrow> nat \<Rightarrow> nat \<Rightarrow> jsstring" where
  \<open>sheetRows_cell rw rowNum c =
     (let ref = col (int c) @ number_to_string rowNum;
          val = or_empty (get_prop rw (keys ! c))
      in js ''<c r="'' @ ref @ js ''" t="inlineStr"><is><t>'' @ escapeXml val
           @ js ''</t></is></c>'')\<close>

function sheetRows_cells :: "row \<Rightarrow> nat \<Rightarrow> nat \<Rightarrow> jsstring \<Rightarrow> jsstring" where
  "sheetRows_cells rw rowNum c sheetRows =
     (if c < length keys
      then sheetRows_cells rw rowNum (c + 1) (sheetRows @ sheetRows_cell rw rowNum c)
      else sheetRows)"
  by pat_completeness auto
termination
  by (relation "measure (\<lambda>(rw, rn, c, sr). length keys - c)") auto

function sheetRows_rows :: "row list \<Rightarrow> nat \<Rightarrow> jsstring \<Rightarrow> jsstring" where
  \<open>sheetRows_rows data r sheetRows =
     (if r < length data
      then (let rowNum = r + 2
            in sheetRows_rows data (r + 1)
                 (sheetRows_cells (data ! r) rowNum 0
                    (sheetRows @ js ''<row r="'' @ number_to_string rowNum @ js ''">'')
                    @ js ''</row>''))
      else sheetRows)\<close>
  by pat_completeness auto
termination
  by (relation "measure (\<lambda>(data, r, sr). length data - r)") auto

definition sheetRows :: "row list \<Rightarrow> jsstring" where
  \<open>sheetRows data =
     sheetRows_rows data 0 (sheetRows_header 0 ([] @ js ''<row r="1">'') @ js ''</row>'')\<close>

text \<open>The cell of an empty inline string, with the cell reference and style given.\<close>

definition empty_cell :: "jsstring \<Rightarrow> jsstring \<Rightarrow> jsstring" where
  \<open>empty_cell ref style =
     js ''<c r="'' @ ref @ js ''" t="inlineStr"'' @ style @ js ''><is><t></t></is></c>''\<close>

text \<open>A row has no text under a key: the key is missing, or holds \<^verbatim>\<open>null\<close>,
  \<^verbatim>\<open>undefined\<close> or the empty string.\<close>

definition no_text :: "row \<Rightarrow> jsstring \<Rightarrow> bool" where
  "no_text rw k =
     (rw k = None \<or> rw k = Some JNull \<or> rw k = Some JUndefined \<or> rw k = Some (JStr []))"

text \<open>One data row of the sheet, in either script: its seven cells between the row
  tags.\<close>

definition data_row :: "row \<Rightarrow> nat \<Rightarrow> jsstring" where
  \<open>data_row rw rn =
     js ''<row r="'' @ number_to_string rn @ js ''">''
       @ concat (map (data_cell rw rn) [0..<length keys]) @ js ''</row>''\<close>

definition sheetRows_row :: "row \<Rightarrow> nat \<Rightarrow> jsstring" where
  \<open>sheetRows_row rw rowNum =
     js ''<row r="'' @ number_to_string rowNum @ js ''">''
       @ concat (map (sheetRows_cell rw rowNum) [0..<length keys]) @ js ''</row>''\<close>

section \<open>Delimited text: \<^verbatim>\<open>downloadCsv\<close>\<close>

text \<open>
  \<^verbatim>\<open>
  function downloadCsv(data, headers, keys) {
    const csvRows = [headers.join(',')];
    for (const row of data) {
      csvRows.push(
        keys.map((k) => {
          const v = (row[k] || '').replace(/"/g, '""');
          return `"${v}"`;
        }).join(',')
      );
    }
    const csvBlob = new Blob([csvRows.join('\n')], { type: 'text/csv' });
    ...
  \<close>
  The browser script has the same code at the end of \<^verbatim>\<open>downloadExcel\<close>. The result
  modelled is the text handed to the \<^verbatim>\<open>Blob\<close>.
\<close>

definition csv_field :: "row \<Rightarrow> jsstring \<Rightarrow> jsstring option" where
  \<open>csv_field rw k =
     do { v \<leftarrow> replace_method (or_empty (get_prop rw k)) QUOT (js ''""'');
          Some (js ''"'' @ v @ js ''"'') }\<close>

fun array_map :: "('a \<Rightarrow> 'b option) \<Rightarrow> 'a list \<Rightarrow> 'b list option" where
  "array_map f [] = Some []"
| "array_map f (x # xs) = do { y \<leftarrow> f x; ys \<leftarrow> array_map f xs; Some (y # ys) }"

definition csv_line :: "row \<Rightarrow> jsstring option" where
  "csv_line rw = do { fs \<leftarrow> array_map (csv_field rw) keys; Some (array_join (js '','') fs) }"

fun csv_loop :: "row list \<Rightarrow> jsstring list \<Rightarrow> jsstring list option" where
  "csv_loop [] csvRows = Some csvRows"
| "csv_loop (rw # rest) csvRows = do { l \<leftarrow> csv_line rw; csv_loop rest (csvRows @ [l]) }"

definition downloadCsv :: "row list \<Rightarrow> jsstring option" where
  "downloadCsv data =
     do { csvRows \<leftarrow> csv_loop data [array_join (js '','') headers];
          Some (array_join [NL] csvRows) }"

subsection \<open>What the claims about the text say\<close>

text \<open>The text a row holds under a key; none is the empty text.\<close>

definition text_of :: "row \<Rightarrow> jsstring \<Rightarrow> jsstring" where
  "text_of rw k = (case rw k of Some (JStr s) \<Rightarrow> s | _ \<Rightarrow> [])"

text \<open>Every double quote of a text is one of a pair of adjacent double quotes.\<close>

fun quotes_doubled :: "jsstring \<Rightarrow> bool" where
  "quotes_doubled [] = True"
| "quotes_doubled [x] = (x \<noteq> QUOT)"
| "quotes_doubled (x # y # ys) =
     (if x = QUOT then y = QUOT \<and> quotes_doubled ys else quotes_doubled (y # ys))"

text \<open>A field as the claim describes it: the value with its quotes doubled, in quotes.\<close>

definition quoted_field :: "jsstring \<Rightarrow> jsstring" where
  "quoted_field v = [QUOT] @ replace_all QUOT [QUOT, QUOT] v @ [QUOT]"

definition csv_record :: "row \<Rightarrow> jsstring" where
  "csv_record rw = array_join (js '','') (map (\<lambda>k. quoted_field (text_of rw k)) keys)"

text \<open>The lines of a text: its maximal pieces without a line feed.\<close>

fun split_lines :: "jsstring \<Rightarrow> jsstring list" where
  "split_lines [] = [[]]"
| "split_lines (x # xs) =
     (if x = NL then [] # split_lines xs
      else (case split_lines xs of [] \<Rightarrow> [[x]] | l # ls \<Rightarrow> (x # l) # ls))"

section \<open>Archive: \<^verbatim>\<open>buildZip\<close> and \<^verbatim>\<open>buildZipBlob\<close>\<close>

subsection \<open>\<^verbatim>\<open>TextEncoder.encode\<close>\<close>

text \<open>
  The encoder turns the code units of a string into UTF-8: a surrogate pair is one
  code point of four bytes, a surrogate without its partner is replaced by U+FFFD
  (\<open>EF BF BD\<close>), any other code unit takes one, two or three bytes.
\<close>

definition is_high :: "16 word \<Rightarrow> bool" where
  "is_high u = (0xD800 \<le> u \<and> u \<le> 0xDBFF)"

definition is_low :: "16 word \<Rightarrow> bool" where
  "is_low u = (0xDC00 \<le> u \<and> u \<le> 0xDFFF)"

definition utf8_unit :: "16 word \<Rightarrow> bytes" where
  "utf8_unit u =
     (let c = unat u
      in if c < 0x80 then [of_nat c]
         else if c < 0x800 then [of_nat (0xC0 + c div 64), of_nat (0x80 + c mod 64)]
         else if is_high u \<or> is_low u then [0xEF, 0xBF, 0xBD]
         else [of_nat (0xE0 + c div 4096), of_nat (0x80 + (c div 64) mod 64),
               of_nat (0x80 + c mod 64)])"

definition utf8_pair :: "16 word \<Rightarrow> 16 word \<Rightarrow> bytes" where
  "utf8_pair u v =
     (let c = 0x10000 + (unat u - 0xD800) * 0x400 + (unat v - 0xDC00)
      in [of_nat (0xF0 + c div 262144), of_nat (0x80 + (c div 4096) mod 64),
          of_nat (0x80 + (c div 64) mod 64), of_nat (0x80 + c mod 64)])"

fun utf8 :: "jsstring \<Rightarrow> bytes" where
  "utf8 [] = []"
| "utf8 [u] = utf8_unit u"
| "utf8 (u # v # vs) =
     (if is_high u \<and> is_low v then utf8_pair u v @ utf8 vs
      else utf8_unit u @ utf8 (v # vs))"

subsection \<open>Buffers and little-endian writes\<close>

text \<open>
  \<^verbatim>\<open>new Uint8Array(n)\<close> is \<open>n\<close> zero bytes. \<^verbatim>\<open>DataView.setUint16(p, v, true)\<close> and
  \<^verbatim>\<open>setUint32(p, v, true)\<close> store the low 16 or 32 bits of \<open>v\<close>, least significant
  byte first, and \<^verbatim>\<open>a.set(src, p)\<close> copies \<open>src\<close> to position \<open>p\<close>; each
  raises a \<^verbatim>\<open>RangeError\<close> when it would write past the end of the buffer.
\<close>

definition Uint8Array :: "nat \<Rightarrow> bytes" where
  "Uint8Array n = replicate n 0"

definition setUint16 :: "nat \<Rightarrow> nat \<Rightarrow> bytes \<Rightarrow> bytes option" where
  "setUint16 p v a =
     (if p + 2 \<le> length a
      then Some (a[p := of_nat v, p + 1 := of_nat (v div 256)])
      else None)"

definition setUint32 :: "nat \<Rightarrow> nat \<Rightarrow> bytes \<Rightarrow> bytes option" where
  "setUint32 p v a =
     (if p + 4 \<le> length a
      then Some (a[p := of_nat v, p + 1 := of_nat (v div 256),
                   p + 2 := of_nat (v div 65536), p + 3 := of_nat (v div 16777216)])
      else None)"

definition set_at :: "bytes \<Rightarrow> nat \<Rightarrow> bytes \<Rightarrow> bytes option" where
  "set_at src p a =
     (if p + length src \<le> length a
      then Some (take p a @ src @ drop (p + length src) a)
      else None)"

text \<open>\<^verbatim>\<open>new Blob(parts)\<close>: the bytes of the parts, one after the other.\<close>

definition Blob :: "bytes list \<Rightarrow> bytes" where
  "Blob ps = concat ps"

record zip_file =
  name :: jsstring
  content :: jsstring

record zip_state =
  parts :: "bytes list"
  cd :: "bytes list"
  off :: nat

subsection \<open>\<^verbatim>\<open>buildZip\<close> (scrapeIntentsBrowser.js, and scrapeIntents.js line 612)\<close>

text \<open>
  \<^verbatim>\<open>
  function buildZip(files) {
    var enc = new TextEncoder();
    var parts = [], cd = [], off = 0;
    for (var i = 0; i < files.length; i++) {
      var nb = enc.encode(files[i].name);
      var cb = enc.encode(files[i].content);
      var cr = crc32(cb), sz = cb.length;

      var lh = new Uint8Array(30 + nb.length);
      var lv = new DataView(lh.buffer);
      lv.setUint32(0,0x04034b50,true); lv.setUint16(4,20,true);
      lv.setUint16(8,0,true); lv.setUint32(14,cr,true);
      lv.setUint32(18,sz,true); lv.setUint32(22,sz,true);
      lv.setUint16(26,nb.length,true); lh.set(nb,30);
      parts.push(lh, cb);

      var ce = new Uint8Array(46 + nb.length);
      var cv = new DataView(ce.buffer);
      cv.setUint32(0,0x02014b50,true); cv.setUint16(4,20,true); cv.setUint16(6,20,true);
      cv.setUint32(16,cr,true); cv.setUint32(20,sz,true); cv.setUint32(24,sz,true);
      cv.setUint16(28,nb.length,true); cv.setUint32(42,off,true);
      ce.set(nb,46); cd.push(ce);
      off += lh.length + cb.length;
    }
    var cdOff = off, cdSz = 0;
    for (var j = 0; j < cd.length; j++) { parts.push(cd[j]); cdSz += cd[j].length; }
    var eo = new Uint8Array(22);
    var ev = new DataView(eo.buffer);
    ev.setUint32(0,0x06054b50,true);
    ev.setUint16(8,files.length,true); ev.setUint16(10,files.length,true);
    ev.setUint32(12,cdSz,true); ev.setUint32(16,cdOff,true);
    parts.push(eo);
    return new Blob(parts,{type:'...'});
  }
  \<close>
\<close>

definition buildZip_lh :: "bytes \<Rightarrow> u32 \<Rightarrow> nat \<Rightarrow> bytes option" where
  "buildZip_lh nb cr sz =
     Some (Uint8Array (30 + length nb))
       \<bind> setUint32 0 0x04034b50 \<bind> setUint16 4 20
       \<bind> setUint16 8 0 \<bind> setUint32 14 (unat cr)
       \<bind> setUint32 18 sz \<bind> setUint32 22 sz
       \<bind> setUint16 26 (length nb) \<bind> set_at nb 30"

definition buildZip_ce :: "bytes \<Rightarrow> u32 \<Rightarrow> nat \<Rightarrow> nat \<Rightarrow> bytes option" where
  "buildZip_ce nb cr sz ofs =
     Some (Uint8Array (46 + length nb))
       \<bind> setUint32 0 0x02014b50 \<bind> setUint16 4 20 \<bind> setUint16 6 20
       \<bind> setUint32 16 (unat cr) \<bind> setUint32 20 sz \<bind> setUint32 24 sz
       \<bind> setUint16 28 (length nb) \<bind> setUint32 42 ofs
       \<bind> set_at nb 46"

definition buildZip_eo :: "nat \<Rightarrow> nat \<Rightarrow> nat \<Rightarrow> bytes option" where
  "buildZip_eo n cdSz cdOff =
     Some (Uint8Array 22)
       \<bind> setUint32 0 0x06054b50
       \<bind> setUint16 8 n \<bind> setUint16 10 n
       \<bind> setUint32 12 cdSz \<bind> setUint32 16 cdOff"

fun buildZip_loop :: "zip_file list \<Rightarrow> zip_state \<Rightarrow> zip_state option" where
  "buildZip_loop [] st = Some st"
| "buildZip_loop (f # fs) st =
     (let nb = utf8 (name f); cb = utf8 (content f); cr = crc32 cb; sz = length cb
      in do { lh \<leftarrow> buildZip_lh nb cr sz;
              ce \<leftarrow> buildZip_ce nb cr sz (off st);
              buildZip_loop fs
                \<lparr>parts = parts st @ [lh, cb], cd = cd st @ [ce],
                 off = off st + (length lh + length cb)\<rparr> })"

text \<open>The second loop: the stashed entries are appended and their lengths summed.\<close>

fun cd_loop :: "bytes list \<Rightarrow> bytes list \<Rightarrow> nat \<Rightarrow> bytes list \<times> nat" where
  "cd_loop [] ps cdSz = (ps, cdSz)"
| "cd_loop (c # cs) ps cdSz = cd_loop cs (ps @ [c]) (cdSz + length c)"

definition buildZip :: "zip_file list \<Rightarrow> bytes option" where
  "buildZip files =
     do { st \<leftarrow> buildZip_loop files \<lparr>parts = [], cd = [], off = 0\<rparr>;
          let cdOff = off st;
          let (ps, cdSz) = cd_loop (cd st) (parts st) 0;
          eo \<leftarrow> buildZip_eo (length files) cdSz cdOff;
          Some (Blob (ps @ [eo])) }"

subsection \<open>\<^verbatim>\<open>buildZipBlob\<close> (scrapeIntents.js line 1086)\<close>

text \<open>
  The same builder with every field of the three records written, the zero ones too:
  \<^verbatim>\<open>
  lv.setUint32(0, 0x04034b50, true);  // signature
  lv.setUint16(4, 20, true);           // version needed
  lv.setUint16(6, 0, true);            // flags
  lv.setUint16(8, 0, true);            // compression: STORE
  lv.setUint16(10, 0, true);           // mod time
  lv.setUint16(12, 0, true);           // mod date
  lv.setUint32(14, crc, true);         // crc32
  lv.setUint32(18, size, true);        // compressed size
  lv.setUint32(22, size, true);        // uncompressed size
  lv.setUint16(26, nameBytes.length, true);
  lv.setUint16(28, 0, true);           // extra field length
  localHeader.set(nameBytes, 30);
  \<close>
\<close>

definition buildZipBlob_localHeader :: "bytes \<Rightarrow> u32 \<Rightarrow> nat \<Rightarrow> bytes option" where
  "buildZipBlob_localHeader nameBytes crc sz =
     Some (Uint8Array (30 + length nameBytes))
       \<bind> setUint32 0 0x04034b50
       \<bind> setUint16 4 20
       \<bind> setUint16 6 0
       \<bind> setUint16 8 0
       \<bind> setUint16 10 0
       \<bind> setUint16 12 0
       \<bind> setUint32 14 (unat crc)
       \<bind> setUint32 18 sz
       \<bind> setUint32 22 sz
       \<bind> setUint16 26 (length nameBytes)
       \<bind> setUint16 28 0
       \<bind> set_at nameBytes 30"

text \<open>
  \<^verbatim>\<open>
  cv.setUint32(0, 0x02014b50, true);   // signature
  cv.setUint16(4, 20, true);           // version made by
  cv.setUint16(6, 20, true);           // version needed
  cv.setUint16(8, 0, true);            // flags
  cv.setUint16(10, 0, true);           // compression
  cv.setUint16(12, 0, true);           // mod time
  cv.setUint16(14, 0, true);           // mod date
  cv.setUint32(16, crc, true);
  cv.setUint32(20, size, true);
  cv.setUint32(24, size, true);
  cv.setUint16(28, nameBytes.length, true);
  cv.setUint16(30, 0, true);           // extra field length
  cv.setUint16(32, 0, true);           // comment length
  cv.setUint16(34, 0, true);           // disk number
  cv.setUint16(36, 0, true);           // internal attributes
  cv.setUint32(38, 0, true);           // external attributes
  cv.setUint32(42, offset, true);      // local header offset
  cdEntry.set(nameBytes, 46);
  \<close>
\<close>

definition buildZipBlob_cdEntry :: "bytes \<Rightarrow> u32 \<Rightarrow> nat \<Rightarrow> nat \<Rightarrow> bytes option" where
  "buildZipBlob_cdEntry nameBytes crc sz offset =
     Some (Uint8Array (46 + length nameBytes))
       \<bind> setUint32 0 0x02014b50
       \<bind> setUint16 4 20
       \<bind> setUint16 6 20
       \<bind> setUint16 8 0
       \<bind> setUint16 10 0
       \<bind> setUint16 12 0
       \<bind> setUint16 14 0
       \<bind> setUint32 16 (unat crc)
       \<bind> setUint32 20 sz
       \<bind> setUint32 24 sz
       \<bind> setUint16 28 (length nameBytes)
       \<bind> setUint16 30 0
       \<bind> setUint16 32 0
       \<bind> setUint16 34 0
       \<bind> setUint16 36 0
       \<bind> setUint32 38 0
       \<bind> setUint32 42 offset
       \<bind> set_at nameBytes 46"

text \<open>
  \<^verbatim>\<open>
  ev.setUint32(0, 0x06054b50, true);
  ev.setUint16(4, 0, true);
  ev.setUint16(6, 0, true);
  ev.setUint16(8, files.length, true);
  ev.setUint16(10, files.length, true);
  ev.setUint32(12, cdSize, true);
  ev.setUint32(16, cdOffset, true);
  ev.setUint16(20, 0, true);
  \<close>
\<close>

definition buildZipBlob_eocd :: "nat \<Rightarrow> nat \<Rightarrow> nat \<Rightarrow> bytes option" where
  "buildZipBlob_eocd n cdSize cdOffset =
     Some (Uint8Array 22)
       \<bind> setUint32 0 0x06054b50
       \<bind> setUint16 4 0
       \<bind> setUint16 6 0
       \<bind> setUint16 8 n
       \<bind> setUint16 10 n
       \<bind> setUint32 12 cdSize
       \<bind> setUint32 16 cdOffset
       \<bind> setUint16 20 0"

fun buildZipBlob_loop :: "zip_file list \<Rightarrow> zip_state \<Rightarrow> zip_state option" where
  "buildZipBlob_loop [] st = Some st"
| "buildZipBlob_loop (f # fs) st =
     (let nameBytes = utf8 (name f); contentBytes = utf8 (content f);
          crc = crc32 contentBytes; sz = length contentBytes
      in do { localHeader \<leftarrow> buildZipBlob_localHeader nameBytes crc sz;
              cdEntry \<leftarrow> buildZipBlob_cdEntry nameBytes crc sz (off st);
              buildZipBlob_loop fs
                \<lparr>parts = parts st @ [localHeader, contentBytes], cd = cd st @ [cdEntry],
                 off = off st + (length localHeader + length contentBytes)\<rparr> })"

definition buildZipBlob :: "zip_file list \<Rightarrow> bytes option" where
  "buildZipBlob files =
     do { st \<leftarrow> buildZipBlob_loop files \<lparr>parts = [], cd = [], off = 0\<rparr>;
          let cdOffset = off st;
          let (ps, cdSize) = cd_loop (cd st) (parts st) 0;
          eocd \<leftarrow> buildZipBlob_eocd (length files) cdSize cdOffset;
          Some (Blob (ps @ [eocd])) }"

subsection \<open>Reading an archive\<close>

text \<open>\<^verbatim>\<open>DataView.getUint16(p, true)\<close> and \<^verbatim>\<open>getUint32(p, true)\<close>: the little-endian
  number at position \<open>p\<close>.\<close>

definition getUint16 :: "nat \<Rightarrow> bytes \<Rightarrow> nat" where
  "getUint16 p a = unat (a ! p) + 256 * unat (a ! (p + 1))"

definition getUint32 :: "nat \<Rightarrow> bytes \<Rightarrow> nat" where
  "getUint32 p a =
     unat (a ! p) + 256 * unat (a ! (p + 1)) + 65536 * unat (a ! (p + 2))
       + 16777216 * unat (a ! (p + 3))"

definition le16 :: "nat \<Rightarrow> bytes" where
  "le16 v = [of_nat v, of_nat (v div 256)]"

definition le32 :: "nat \<Rightarrow> bytes" where
  "le32 v = [of_nat v, of_nat (v div 256), of_nat (v div 65536), of_nat (v div 16777216)]"

text \<open>The byte lengths of a part's local record (header, name, content) and of its
  central-directory entry.\<close>

definition local_len :: "zip_file \<Rightarrow> nat" where
  "local_len f = 30 + length (utf8 (name f)) + length (utf8 (content f))"

definition central_len :: "zip_file \<Rightarrow> nat" where
  "central_len f = 46 + length (utf8 (name f))"

text \<open>Where the \<open>i\<close>-th local record and the \<open>i\<close>-th central-directory entry start.\<close>

definition local_pos :: "zip_file list \<Rightarrow> nat \<Rightarrow> nat" where
  "local_pos files i = sum_list (map local_len (take i files))"

definition central_pos :: "zip_file list \<Rightarrow> nat \<Rightarrow> nat" where
  "central_pos files i =
     sum_list (map local_len files) + sum_list (map central_len (take i files))"

text \<open>The layout of the three records, field by field.\<close>

definition local_header :: "bytes \<Rightarrow> u32 \<Rightarrow> nat \<Rightarrow> bytes" where
  "local_header nb cr sz =
     le32 0x04034b50 @ le16 20 @ le16 0 @ le16 0 @ le16 0 @ le16 0 @ le32 (unat cr)
       @ le32 sz @ le32 sz @ le16 (length nb) @ le16 0 @ nb"

definition central_entry :: "bytes \<Rightarrow> u32 \<Rightarrow> nat \<Rightarrow> nat \<Rightarrow> bytes" where
  "central_entry nb cr sz ofs =
     le32 0x02014b50 @ le16 20 @ le16 20 @ le16 0 @ le16 0 @ le16 0 @ le16 0 @ le32 (unat cr)
       @ le32 sz @ le32 sz @ le16 (length nb) @ le16 0 @ le16 0 @ le16 0 @ le16 0 @ le32 0
       @ le32 ofs @ nb"

definition end_record :: "nat \<Rightarrow> nat \<Rightarrow> nat \<Rightarrow> bytes" where
  "end_record n cdSz cdOff =
     le32 0x06054b50 @ le16 0 @ le16 0 @ le16 n @ le16 n @ le32 cdSz @ le32 cdOff @ le16 0"

definition local_record :: "zip_file \<Rightarrow> bytes" where
  "local_record f =
     local_header (utf8 (name f)) (crc32 (utf8 (content f))) (length (utf8 (content f)))
       @ utf8 (content f)"

fun central_entries :: "nat \<Rightarrow> zip_file list \<Rightarrow> bytes list" where
  "central_entries ofs [] = []"
| "central_entries ofs (f # fs) =
     central_entry (utf8 (name f)) (crc32 (utf8 (content f))) (length (utf8 (content f))) ofs
       # central_entries (ofs + local_len f) fs"

text \<open>
  The scripts run in the Chrome console and in Node, on the V8 engine, where a string
  holds at most \<open>2^29 - 24\<close> code units.
\<close>

definition max_string_length :: nat where
  "max_string_length = 536870888"

text \<open>Parts to try the builder on: a named part holding one character \<open>n\<close> times, and
  the empty part whose name is a number.\<close>

definition sample_part :: "string \<Rightarrow> 16 word \<Rightarrow> nat \<Rightarrow> zip_file" where
  "sample_part nm c n = \<lparr>name = js nm, content = replicate n c\<rparr>"

definition numbered_part :: "nat \<Rightarrow> zip_file" where
  "numbered_part i = \<lparr>name = number_to_string i, content = []\<rparr>"

text \<open>The archive as the specification lays it out: the local records, the
  central-directory entries, each with the offset of its local record, and the end
  record.\<close>

definition archive :: "zip_file list \<Rightarrow> bytes" where
  "archive files =
     concat (map local_record files) @ concat (central_entries 0 files)
       @ end_record (length files) (sum_list (map central_len files))
           (sum_list (map local_len files))"

section \<open>The checksum\<close>

text \<open>Each iteration is unfolded by hand, one turn at a time.\<close>

declare crc32_bits.simps [simp del] crc32_loop.simps [simp del] col_loop.simps [simp del]
  number_to_string.simps [simp del] header_loop.simps [simp del] cells_loop.simps [simp del]
  rows_loop.simps [simp del] sheetRows_header.simps [simp del] sheetRows_cells.simps [simp del]
  sheetRows_rows.simps [simp del]

lemma crc32_low_bit: "((c::u32) AND 1 \<noteq> 0) = bit c 0"
  by (simp add: and_one_eq bit_0 odd_iff_mod_2_eq_one)

lemma crc32_bits_step:
  "drop_bit 1 c XOR (if c AND 1 \<noteq> 0 then 0xedb88320 else 0) = crc32_ref_shift c"
  unfolding crc32_low_bit crc32_ref_shift_def by simp

lemma crc32_bits_funpow:
  "crc32_bits j c = (crc32_ref_shift ^^ (8 - j)) c"
proof (induction j c rule: crc32_bits.induct)
  case (1 j c)
  show ?case
  proof (cases "j < 8")
    case True
    then have "8 - j = Suc (8 - (j + 1))"
      by simp
    then have unroll: "(crc32_ref_shift ^^ (8 - j)) c
        = (crc32_ref_shift ^^ (8 - (j + 1))) (crc32_ref_shift c)"
      by (simp only: funpow_Suc_right o_apply)
    have "crc32_bits j c = crc32_bits (j + 1) (crc32_ref_shift c)"
      by (subst crc32_bits.simps) (simp only: True if_True crc32_bits_step)
    also have "\<dots> = (crc32_ref_shift ^^ (8 - (j + 1))) (crc32_ref_shift c)"
      using "1.IH" [OF True] by (simp only: crc32_bits_step)
    finally show ?thesis
      by (simp only: unroll)
  next
    case False
    then have "crc32_bits j c = c"
      by (subst crc32_bits.simps) simp
    with False show ?thesis
      by simp
  qed
qed

lemma crc32_loop_foldl:
  "crc32_loop b i c = foldl crc32_ref_byte c (drop i b)"
proof (induction b i c rule: crc32_loop.induct)
  case (1 b i c)
  show ?case
  proof (cases "i < length b")
    case True
    then have split: "drop i b = b ! i # drop (i + 1) b"
      by (simp add: Cons_nth_drop_Suc)
    have "crc32_loop b i c = crc32_loop b (i + 1) (crc32_bits 0 (c XOR ucast (b ! i)))"
      by (subst crc32_loop.simps) (simp only: True if_True)
    also have "\<dots> = foldl crc32_ref_byte (crc32_bits 0 (c XOR ucast (b ! i))) (drop (i + 1) b)"
      by (rule "1.IH" [OF True])
    also have "\<dots> = foldl crc32_ref_byte c (drop i b)"
      by (simp only: split foldl_Cons crc32_bits_funpow crc32_ref_byte_def diff_zero)
    finally show ?thesis .
  next
    case False
    then have "crc32_loop b i c = c"
      by (subst crc32_loop.simps) simp
    with False show ?thesis
      by simp
  qed
qed

lemma crc32_is_ref: "crc32 bs = crc32_ref bs"
  by (simp only: crc32_def crc32_ref_def crc32_loop_foldl drop_0)

text \<open>
  Claim C1, as stated: for the nine ASCII bytes of \<open>123456789\<close>, \<open>crc32\<close> returns
  \<open>0xCBF53A1B\<close>. It does not.
\<close>

theorem crc32_not_CBF53A1B: "crc32 (ascii ''123456789'') \<noteq> 0xCBF53A1B"
  by (simp add: crc32_def ascii_def crc32_loop.simps crc32_bits.simps)

text \<open>
  Claim C1, amended: for the nine ASCII bytes of \<open>123456789\<close>, \<open>crc32\<close> returns
  \<open>0xCBF43926\<close>, the check value published for CRC-32.
\<close>

theorem crc32_check_value: "crc32 (ascii ''123456789'') = 0xCBF43926"
  by (simp add: crc32_def ascii_def crc32_loop.simps crc32_bits.simps)

text \<open>
  Claim C7. \<open>crc32\<close> is defined on every byte sequence (both iterations terminate), the
  empty one included, where it returns 0, and on every input it returns what the
  reference reflected CRC-32 returns: register \<open>0xFFFFFFFF\<close>, each byte XORed into the
  low byte, eight conditional shifts with \<open>0xEDB88320\<close>, final XOR with \<open>0xFFFFFFFF\<close>.
\<close>

theorem crc32_total_reference:
  "crc32 bs = crc32_ref bs \<and> crc32 [] = 0 \<and> crc32_ref [] = 0"
proof -
  have "crc32 [] = 0"
    by (simp add: crc32_def crc32_loop.simps)
  moreover have "crc32_ref [] = 0"
    by (simp add: crc32_ref_def)
  ultimately show ?thesis
    by (simp add: crc32_is_ref)
qed

section \<open>Column letters\<close>

text \<open>
  Claim C6. The column-letter function maps index 0 to \<open>A\<close>, 25 to \<open>Z\<close>, 26 to
  \<open>AA\<close> and 701 to \<open>ZZ\<close>.
\<close>

theorem col_letters:
  "col 0 = js ''A'' \<and> col 25 = js ''Z'' \<and> col 26 = js ''AA'' \<and> col 701 = js ''ZZ''"
  by (simp add: col_def col_loop.simps fromCharCode_def js_def)

section \<open>Escaping\<close>

lemmas code_units = AMP_def LT_def GT_def QUOT_def NL_def js_def

lemma replace_all_append:
  "replace_all c r (xs @ ys) = replace_all c r xs @ replace_all c r ys"
  by (induction xs) simp_all

lemma set_replace_all: "set (replace_all c r s) \<subseteq> set s \<union> set r"
  by (induction s) auto

lemma esc_Cons: "esc (JStr (x # xs)) = esc_char x @ esc (JStr xs)"
  by (simp add: esc_def esc_char_def replace_all_append code_units)

text \<open>
  The browser script's \<open>esc\<close> follows the rule: it replaces each of the five characters,
  and its result holds no raw \<open><\<close>, \<open>>\<close>, double quote or line feed.
\<close>

lemma esc_by_char: "esc (JStr s) = concat (map esc_char s)"
proof (induction s)
  case Nil
  show ?case by (simp add: esc_def)
next
  case (Cons x xs)
  then show ?case by (simp add: esc_Cons)
qed

lemma esc_char_no_raw:
  "LT \<notin> set (esc_char x) \<and> GT \<notin> set (esc_char x) \<and> QUOT \<notin> set (esc_char x)
     \<and> NL \<notin> set (esc_char x)"
  by (simp add: esc_char_def code_units)

lemma esc_no_raw:
  "LT \<notin> set (esc (JStr s)) \<and> GT \<notin> set (esc (JStr s)) \<and> QUOT \<notin> set (esc (JStr s))
     \<and> NL \<notin> set (esc (JStr s))"
  using esc_char_no_raw by (simp add: esc_by_char)

text \<open>
  Claim C3. The escaping function replaces all five special characters, the line feed
  by its numeric entity, so that the escaped text of a string with a line feed holds
  no raw line feed. \<open>esc\<close> of scrapeIntentsBrowser.js does; \<open>escapeXml\<close> of
  scrapeIntents.js (and the \<open>esc\<close> beside it) returns the two lines
  \<open>line1\<close>, \<open>line2\<close> with the raw line feed still between them.
\<close>

theorem escapeXml_keeps_line_feed:
  "escapeXml (JStr (js ''line1'' @ [NL] @ js ''line2'')) = js ''line1'' @ [NL] @ js ''line2''
     \<and> NL \<in> set (escapeXml (JStr (js ''line1'' @ [NL] @ js ''line2'')))
     \<and> esc (JStr (js ''line1'' @ [NL] @ js ''line2'')) = js ''line1&#10;line2''"
  by (simp add: escapeXml_def esc_def code_units)

section \<open>Worksheet cells\<close>

lemma or_empty_no_text: "no_text rw k \<Longrightarrow> or_empty (get_prop rw k) = JStr []"
  by (auto simp: no_text_def or_empty_def get_prop_def)

lemma esc_empty: "esc (JStr []) = [] \<and> escapeXml (JStr []) = []"
  by (simp add: esc_def escapeXml_def)

lemma cells_loop_from:
  "cells_loop rw rn c2 sr = sr @ concat (map (data_cell rw rn) [c2..<length keys])"
proof (induction rw rn c2 sr rule: cells_loop.induct)
  case (1 rw rn c2 sr)
  show ?case
  proof (cases "c2 < length keys")
    case True
    then have "[c2..<length keys] = c2 # [c2 + 1..<length keys]"
      by (simp add: upt_conv_Cons)
    with True "1.IH" [OF True] show ?thesis
      by (subst cells_loop.simps) simp
  next
    case False
    then show ?thesis
      by (subst cells_loop.simps) simp
  qed
qed

lemma sheetRows_cells_from:
  "sheetRows_cells rw rn c sr = sr @ concat (map (sheetRows_cell rw rn) [c..<length keys])"
proof (induction rw rn c sr rule: sheetRows_cells.induct)
  case (1 rw rn c sr)
  show ?case
  proof (cases "c < length keys")
    case True
    then have "[c..<length keys] = c # [c + 1..<length keys]"
      by (simp add: upt_conv_Cons)
    with True "1.IH" [OF True] show ?thesis
      by (subst sheetRows_cells.simps) simp
  next
    case False
    then show ?thesis
      by (subst sheetRows_cells.simps) simp
  qed
qed

lemma rows_loop_from:
  "rows_loop data r sr = sr @ concat (map (\<lambda>i. data_row (data ! i) (i + 2)) [r..<length data])"
proof (induction data r sr rule: rows_loop.induct)
  case (1 data r sr)
  show ?case
  proof (cases "r < length data")
    case True
    then have "[r..<length data] = r # [r + 1..<length data]"
      by (simp add: upt_conv_Cons)
    with True "1.IH" [OF True refl] show ?thesis
      by (subst rows_loop.simps) (simp add: Let_def cells_loop_from data_row_def)
  next
    case False
    then show ?thesis
      by (subst rows_loop.simps) simp
  qed
qed

lemma sheetRows_rows_from:
  "sheetRows_rows data r sr
     = sr @ concat (map (\<lambda>i. sheetRows_row (data ! i) (i + 2)) [r..<length data])"
proof (induction data r sr rule: sheetRows_rows.induct)
  case (1 data r sr)
  show ?case
  proof (cases "r < length data")
    case True
    then have "[r..<length data] = r # [r + 1..<length data]"
      by (simp add: upt_conv_Cons)
    with True "1.IH" [OF True refl] show ?thesis
      by (subst sheetRows_rows.simps) (simp add: Let_def sheetRows_cells_from sheetRows_row_def)
  next
    case False
    then show ?thesis
      by (subst sheetRows_rows.simps) simp
  qed
qed

text \<open>With no rows the sheet holds the header row alone; every row adds its own.\<close>

lemma sheet_sr_rows:
  "sheet_sr data
     = sheet_sr [] @ concat (map (\<lambda>i. data_row (data ! i) (i + 2)) [0..<length data])"
  by (simp add: sheet_sr_def rows_loop_from)

lemma sheetRows_rows:
  "sheetRows data
     = sheetRows [] @ concat (map (\<lambda>i. sheetRows_row (data ! i) (i + 2)) [0..<length data])"
  by (simp add: sheetRows_def sheetRows_rows_from)

text \<open>
  Claim C8. For every row and every declared column key, if the row lacks the key, or
  maps it to \<^verbatim>\<open>null\<close>, \<^verbatim>\<open>undefined\<close> or the empty string, the worksheet generator
  emits an inline-string cell holding the empty string (in both scripts); and the
  generator is defined on every list of rows, whatever keys they miss: each row gives
  its seven cells.
\<close>

theorem missing_key_empty_cell:
  assumes "c2 < length keys" and "no_text rw (keys ! c2)"
  shows \<open>data_cell rw rn c2
           = empty_cell (col (int c2) @ number_to_string rn) (if c2 = 5 then js '' s="2"'' else [])
       \<and> sheetRows_cell rw rn c2 = empty_cell (col (int c2) @ number_to_string rn) []
       \<and> sheet_sr data
           = sheet_sr [] @ concat (map (\<lambda>i. data_row (data ! i) (i + 2)) [0..<length data])
       \<and> sheetRows data
           = sheetRows [] @ concat (map (\<lambda>i. sheetRows_row (data ! i) (i + 2)) [0..<length data])\<close>
proof -
  from assms(2) have "or_empty (get_prop rw (keys ! c2)) = JStr []"
    by (rule or_empty_no_text)
  then have "data_cell rw rn c2
      = empty_cell (col (int c2) @ number_to_string rn) (if c2 = 5 then js '' s=\"2\"'' else [])"
    and "sheetRows_cell rw rn c2 = empty_cell (col (int c2) @ number_to_string rn) []"
    by (simp_all add: data_cell_def sheetRows_cell_def empty_cell_def esc_empty js_def)
  then show ?thesis
    using sheet_sr_rows [of data] sheetRows_rows [of data] by simp
qed

text \<open>A row with a topic only: its Examples cell in row 3 is the empty cell \<open>F3\<close>.\<close>

theorem missing_key_empty_cell_witness:
  \<open>5 < length keys
     \<and> no_text (Map.empty(js ''topic'' \<mapsto> JStr (js ''T''))) (keys ! 5)
     \<and> data_cell (Map.empty(js ''topic'' \<mapsto> JStr (js ''T''))) 3 5
         = js ''<c r="F3" t="inlineStr" s="2"><is><t></t></is></c>''
     \<and> sheetRows_cell (Map.empty(js ''topic'' \<mapsto> JStr (js ''T''))) 3 5
         = js ''<c r="F3" t="inlineStr"><is><t></t></is></c>''\<close>
proof -
  have k: "5 < length keys"
    by (simp add: keys_def)
  have n: "no_text (Map.empty(js ''topic'' \<mapsto> JStr (js ''T''))) (keys ! 5)"
    by (simp add: no_text_def keys_def js_def)
  have r: \<open>empty_cell (col (int 5) @ number_to_string 3) (js '' s="2"'')
             = js ''<c r="F3" t="inlineStr" s="2"><is><t></t></is></c>''\<close>
    \<open>empty_cell (col (int 5) @ number_to_string 3) []
             = js ''<c r="F3" t="inlineStr"><is><t></t></is></c>''\<close>
    by (simp_all add: empty_cell_def col_def col_loop.simps number_to_string.simps
        fromCharCode_def js_def)
  show ?thesis
    using missing_key_empty_cell [OF k n, of 3 "[]"] k n r by simp
qed

section \<open>Delimited text\<close>

lemma replace_method_or_empty:
  "replace_method (or_empty (get_prop rw k)) c r = Some (replace_all c r (text_of rw k))"
proof (cases "rw k")
  case None
  then show ?thesis
    by (simp add: get_prop_def or_empty_def text_of_def)
next
  case (Some v)
  then show ?thesis
    by (cases v) (simp_all add: get_prop_def or_empty_def text_of_def)
qed

lemma csv_field_quoted: "csv_field rw k = Some (quoted_field (text_of rw k))"
  by (simp add: csv_field_def replace_method_or_empty quoted_field_def code_units)

lemma array_map_total: "(\<And>x. f x = Some (g x)) \<Longrightarrow> array_map f xs = Some (map g xs)"
  by (induction xs) simp_all

lemma csv_line_record: "csv_line rw = Some (csv_record rw)"
  by (simp add: csv_line_def csv_record_def array_map_total [OF csv_field_quoted])

lemma csv_loop_records: "csv_loop data csvRows = Some (csvRows @ map csv_record data)"
  by (induction data arbitrary: csvRows) (simp_all add: csv_line_record)

lemma downloadCsv_text:
  "downloadCsv data
     = Some (array_join [NL] (array_join (js '','') headers # map csv_record data))"
  by (simp add: downloadCsv_def csv_loop_records)

lemma quotes_doubled_Cons: "x \<noteq> QUOT \<Longrightarrow> quotes_doubled (x # xs) = quotes_doubled xs"
  by (cases xs) simp_all

lemma quotes_doubled_replace_all: "quotes_doubled (replace_all QUOT [QUOT, QUOT] v)"
  by (induction v) (simp_all add: quotes_doubled_Cons)

lemma split_lines_no_NL: "NL \<notin> set x \<Longrightarrow> split_lines x = [x]"
  by (induction x) (auto split: list.splits)

lemma split_lines_append_NL:
  "NL \<notin> set x \<Longrightarrow> split_lines (x @ NL # rest) = x # split_lines rest"
  by (induction x) (auto split: list.splits)

lemma split_lines_array_join:
  "xs \<noteq> [] \<Longrightarrow> \<forall>x \<in> set xs. NL \<notin> set x \<Longrightarrow> split_lines (array_join [NL] xs) = xs"
proof (induction "[NL]" xs rule: array_join.induct)
  case 1
  then show ?case by simp
next
  case (2 x)
  then show ?case by (simp add: split_lines_no_NL)
next
  case (3 x y ys)
  then show ?case by (simp add: split_lines_append_NL)
qed

lemma set_array_join: "set (array_join sep xs) \<subseteq> set sep \<union> \<Union> (set ` set xs)"
  by (induction sep xs rule: array_join.induct) auto

lemma header_line_no_NL: "NL \<notin> set (array_join (js '','') headers)"
  by (simp add: headers_def code_units)

lemma quoted_field_no_NL: "NL \<notin> set v \<Longrightarrow> NL \<notin> set (quoted_field v)"
  using set_replace_all [of QUOT "[QUOT, QUOT]" v]
  by (auto simp: quoted_field_def code_units)

lemma csv_record_no_NL:
  assumes "\<forall>k \<in> set keys. NL \<notin> set (text_of rw k)"
  shows "NL \<notin> set (csv_record rw)"
proof
  assume "NL \<in> set (csv_record rw)"
  with set_array_join [of "js '',''" "map (\<lambda>k. quoted_field (text_of rw k)) keys"]
  have "NL \<in> set (js '','') \<or> (\<exists>k \<in> set keys. NL \<in> set (quoted_field (text_of rw k)))"
    by (auto simp: csv_record_def)
  then show False
    using assms quoted_field_no_NL by (auto simp: code_units)
qed


text \<open>
  A line feed inside a field stays inside its quotes, within the record of its row.
  When no field value holds a line feed, the records are also the pieces of the text
  between line feeds.
\<close>

lemma downloadCsv_pieces:
  assumes "\<forall>rw \<in> set data. \<forall>k \<in> set keys. NL \<notin> set (text_of rw k)"
  shows "split_lines (array_join [NL] (array_join (js '','') headers # map csv_record data))
           = array_join (js '','') headers # map csv_record data"
proof -
  from assms have "\<forall>x \<in> set (array_join (js '','') headers # map csv_record data). NL \<notin> set x"
    by (auto simp: header_line_no_NL csv_record_no_NL)
  then show ?thesis
    by (intro split_lines_array_join) simp_all
qed

text \<open>
  Claim C9. For every list of rows, the delimited text is one header line followed by
  exactly one line per row, the line of a row being the record pushed for it, the lines
  joined by line feeds; in every data line each field is enclosed in double quotes,
  the fields are separated by commas, and every double quote inside a field value is
  doubled.
\<close>

theorem downloadCsv_records:
  "\<exists>out. downloadCsv data = Some out
     \<and> out = array_join [NL] (array_join (js '','') headers # map csv_record data)
     \<and> length (array_join (js '','') headers # map csv_record data) = 1 + length data
     \<and> (\<forall>i < length data.
           (array_join (js '','') headers # map csv_record data) ! (i + 1)
             = array_join (js '','') (map (\<lambda>k. quoted_field (text_of (data ! i) k)) keys))
     \<and> (\<forall>rw \<in> set data. \<forall>k \<in> set keys.
           quoted_field (text_of rw k)
             = [QUOT] @ replace_all QUOT [QUOT, QUOT] (text_of rw k) @ [QUOT]
           \<and> quotes_doubled (replace_all QUOT [QUOT, QUOT] (text_of rw k)))"
proof (intro exI conjI allI impI ballI)
  show "downloadCsv data
      = Some (array_join [NL] (array_join (js '','') headers # map csv_record data))"
    by (rule downloadCsv_text)
  show "array_join [NL] (array_join (js '','') headers # map csv_record data)
      = array_join [NL] (array_join (js '','') headers # map csv_record data)"
    by (rule refl)
  show "length (array_join (js '','') headers # map csv_record data) = 1 + length data"
    by simp
next
  fix i
  assume "i < length data"
  then show "(array_join (js '','') headers # map csv_record data) ! (i + 1)
      = array_join (js '','') (map (\<lambda>k. quoted_field (text_of (data ! i) k)) keys)"
    by (simp add: csv_record_def)
next
  fix rw k
  show "quoted_field (text_of rw k)
      = [QUOT] @ replace_all QUOT [QUOT, QUOT] (text_of rw k) @ [QUOT]"
    by (simp add: quoted_field_def)
  show "quotes_doubled (replace_all QUOT [QUOT, QUOT] (text_of rw k))"
    by (rule quotes_doubled_replace_all)
qed

text \<open>
  Two rows: category \<open>A\<close> with the examples \<open>line1\<close> and \<open>line2\<close> on two lines and
  the intent \<open>say "hi"\<close>, then category \<open>B\<close>. The line of the second row is the third
  of the text.
\<close>

theorem downloadCsv_records_witness:
  \<open>downloadCsv
     [Map.empty(js ''category'' \<mapsto> JStr (js ''A''), js ''intent'' \<mapsto> JStr (js ''say "hi"''),
        js ''examples'' \<mapsto> JStr (js ''line1'' @ [NL] @ js ''line2'')),
      Map.empty(js ''category'' \<mapsto> JStr (js ''B''))]
     = Some (js ''Category,Topic,Intent,Intent Percentage,Volume,Examples,Active'' @ [NL]
             @ js ''"A","","say ""hi""","","","line1'' @ [NL] @ js ''line2",""'' @ [NL]
             @ js ''"B","","","","","",""'')\<close>
proof -
  let ?a = \<open>Map.empty(js ''category'' \<mapsto> JStr (js ''A''),
             js ''intent'' \<mapsto> JStr (js ''say "hi"''),
             js ''examples'' \<mapsto> JStr (js ''line1'' @ [NL] @ js ''line2''))\<close>
  let ?b = \<open>Map.empty(js ''category'' \<mapsto> JStr (js ''B''))\<close>
  have hd: "array_join (js '','') headers
      = js ''Category,Topic,Intent,Intent Percentage,Volume,Examples,Active''"
    by (simp add: headers_def js_def)
  have ra: \<open>csv_record ?a
      = js ''"A","","say ""hi""","","","line1'' @ [NL] @ js ''line2",""''\<close>
    by (simp add: csv_record_def quoted_field_def keys_def text_of_def code_units)
  have rb: \<open>csv_record ?b = js ''"B","","","","","",""''\<close>
    by (simp add: csv_record_def quoted_field_def keys_def text_of_def code_units)
  have "array_join [NL] (array_join (js '','') headers # map csv_record [?a, ?b])
      = js ''Category,Topic,Intent,Intent Percentage,Volume,Examples,Active'' @ [NL]
          @ (js ''\"A\",\"\",\"say \"\"hi\"\"\",\"\",\"\",\"line1'' @ [NL] @ js ''line2\",\"\"'') @ [NL]
          @ js ''\"B\",\"\",\"\",\"\",\"\",\"\",\"\"''"
    by (simp only: list.map hd ra rb array_join.simps)
  moreover from downloadCsv_records [of "[?a, ?b]"] obtain out where
    "downloadCsv [?a, ?b] = Some out"
    "out = array_join [NL] (array_join (js '','') headers # map csv_record [?a, ?b])"
    by blast
  ultimately show ?thesis
    by (simp only: append_assoc)
qed

section \<open>The archive\<close>

text \<open>The three buffers, byte by byte, and the records the writes leave in them.\<close>

lemma zeros30: "replicate (30 + n) (0::byte)
   = [0,0,0,0,0,0,0,0,0,0,0,0,0,0,0,0,0,0,0,0,0,0,0,0,0,0,0,0,0,0] @ replicate n 0"
  by (simp add: replicate_add numeral_eq_Suc)

lemma zeros46: "replicate (46 + n) (0::byte)
   = [0,0,0,0,0,0,0,0,0,0,0,0,0,0,0,0,0,0,0,0,0,0,0,0,0,0,0,0,0,0,
      0,0,0,0,0,0,0,0,0,0,0,0,0,0,0,0] @ replicate n 0"
  by (simp add: replicate_add numeral_eq_Suc)

lemma zeros22: "replicate 22 (0::byte)
   = [0,0,0,0,0,0,0,0,0,0,0,0,0,0,0,0,0,0,0,0,0,0]"
  by (simp add: numeral_eq_Suc)

lemma buildZip_lh_bytes: "buildZip_lh nb cr sz = Some (local_header nb cr sz)"
  unfolding buildZip_lh_def local_header_def Uint8Array_def zeros30
  by (simp add: setUint16_def setUint32_def set_at_def le16_def le32_def)

lemma buildZipBlob_localHeader_bytes:
  "buildZipBlob_localHeader nb cr sz = Some (local_header nb cr sz)"
  unfolding buildZipBlob_localHeader_def local_header_def Uint8Array_def zeros30
  by (simp add: setUint16_def setUint32_def set_at_def le16_def le32_def)

lemma buildZip_ce_bytes: "buildZip_ce nb cr sz ofs = Some (central_entry nb cr sz ofs)"
  unfolding buildZip_ce_def central_entry_def Uint8Array_def zeros46
  by (simp add: setUint16_def setUint32_def set_at_def le16_def le32_def)

lemma buildZipBlob_cdEntry_bytes:
  "buildZipBlob_cdEntry nb cr sz ofs = Some (central_entry nb cr sz ofs)"
  unfolding buildZipBlob_cdEntry_def central_entry_def Uint8Array_def zeros46
  by (simp add: setUint16_def setUint32_def set_at_def le16_def le32_def)

lemma buildZip_eo_bytes: "buildZip_eo n cdSz cdOff = Some (end_record n cdSz cdOff)"
  unfolding buildZip_eo_def end_record_def Uint8Array_def zeros22
  by (simp add: setUint16_def setUint32_def set_at_def le16_def le32_def)

lemma buildZipBlob_eocd_bytes: "buildZipBlob_eocd n cdSz cdOff = Some (end_record n cdSz cdOff)"
  unfolding buildZipBlob_eocd_def end_record_def Uint8Array_def zeros22
  by (simp add: setUint16_def setUint32_def set_at_def le16_def le32_def)


lemma length_local_header: "length (local_header nb cr sz) = 30 + length nb"
  by (simp add: local_header_def le16_def le32_def)

lemma length_central_entry: "length (central_entry nb cr sz ofs) = 46 + length nb"
  by (simp add: central_entry_def le16_def le32_def)

lemma length_end_record: "length (end_record n cdSz cdOff) = 22"
  by (simp add: end_record_def le16_def le32_def)

lemma length_local_record: "length (local_record f) = local_len f"
  by (simp add: local_record_def local_len_def length_local_header)

lemma length_locals: "length (concat (map local_record fs)) = sum_list (map local_len fs)"
  by (induction fs) (simp_all add: length_local_record)

lemma length_centrals:
  "length (concat (central_entries ofs fs)) = sum_list (map central_len fs)"
  by (induction fs arbitrary: ofs) (simp_all add: length_central_entry central_len_def)

lemma sum_length_centrals:
  "sum_list (map length (central_entries ofs fs)) = sum_list (map central_len fs)"
  by (induction fs arbitrary: ofs) (simp_all add: length_central_entry central_len_def)

text \<open>The two passes over the parts.\<close>

lemma cd_loop_result: "cd_loop cs ps n = (ps @ cs, n + sum_list (map length cs))"
  by (induction cs arbitrary: ps n) simp_all

lemma buildZip_loop_state:
  "buildZip_loop fs st
     = Some \<lparr>parts = parts st
                 @ concat (map (\<lambda>f. [local_header (utf8 (name f)) (crc32 (utf8 (content f)))
                                        (length (utf8 (content f))),
                                      utf8 (content f)]) fs),
             cd = cd st @ central_entries (off st) fs,
             off = off st + sum_list (map local_len fs)\<rparr>"
proof (induction fs arbitrary: st)
  case Nil
  show ?case by simp
next
  case (Cons f fs)
  show ?case
    by (simp add: Cons.IH buildZip_lh_bytes buildZip_ce_bytes Let_def local_len_def
        length_local_header add.assoc)
qed

lemma concat_local_parts:
  "concat (concat (map (\<lambda>f. [local_header (utf8 (name f)) (crc32 (utf8 (content f)))
                                 (length (utf8 (content f))),
                               utf8 (content f)]) fs))
     = concat (map local_record fs)"
  by (induction fs) (simp_all add: local_record_def)

text \<open>The builder of scrapeIntents.js writes the zero fields too, and builds the same archive.\<close>

lemma buildZipBlob_loop_eq: "buildZipBlob_loop fs st = buildZip_loop fs st"
  by (induction fs arbitrary: st)
    (simp_all add: buildZip_lh_bytes buildZip_ce_bytes buildZipBlob_localHeader_bytes
      buildZipBlob_cdEntry_bytes Let_def)

lemma buildZipBlob_eq: "buildZipBlob files = buildZip files"
  by (simp add: buildZipBlob_def buildZip_def buildZipBlob_loop_eq buildZip_eo_bytes
      buildZipBlob_eocd_bytes)

lemma buildZip_archive: "buildZip files = Some (archive files)"
  by (simp add: buildZip_def buildZip_loop_state cd_loop_result buildZip_eo_bytes Blob_def
      concat_local_parts sum_length_centrals archive_def)


text \<open>Reading little-endian fields back.\<close>

lemma unat_byte_of_nat: "unat (of_nat v :: byte) = v mod 256"
  by (simp add: unat_of_nat)

lemma le_sum16: "(v::nat) mod 256 + 256 * (v div 256 mod 256) = v mod 65536"
  using mod_mult2_eq [of v 256 256] by simp

lemma le_sum32:
  "(v::nat) mod 256 + 256 * (v div 256 mod 256) + 65536 * (v div 65536 mod 256)
     + 16777216 * (v div 16777216 mod 256) = v mod 4294967296"
proof -
  have hi: "v div 65536 mod 256 + 256 * (v div 16777216 mod 256) = v div 65536 mod 65536"
    using le_sum16 [of "v div 65536"] by (simp add: div_mult2_eq [symmetric])
  have "v mod 4294967296 = 65536 * (v div 65536 mod 65536) + v mod 65536"
    using mod_mult2_eq [of v 65536 65536] by simp
  also have "\<dots> = 65536 * (v div 65536 mod 256 + 256 * (v div 16777216 mod 256))
      + (v mod 256 + 256 * (v div 256 mod 256))"
    by (simp only: hi le_sum16)
  finally show ?thesis
    by simp
qed

lemma getUint16_le16: "getUint16 0 (le16 v @ ys) = v mod 65536"
  by (simp add: getUint16_def le16_def unat_byte_of_nat le_sum16)

lemma getUint32_le32: "getUint32 0 (le32 v @ ys) = v mod 4294967296"
  by (simp add: getUint32_def le32_def unat_byte_of_nat le_sum32)

lemma getUint32_shift: "getUint32 (length xs + p) (xs @ ys) = getUint32 p ys"
  by (simp add: getUint32_def nth_append add.assoc)

lemma getUint16_shift: "getUint16 (length xs + p) (xs @ ys) = getUint16 p ys"
  by (simp add: getUint16_def nth_append add.assoc)

lemma getUint32_prefix: "p + 4 \<le> length ys \<Longrightarrow> getUint32 p (ys @ zs) = getUint32 p ys"
  by (simp add: getUint32_def nth_append)

lemma getUint16_prefix: "p + 2 \<le> length ys \<Longrightarrow> getUint16 p (ys @ zs) = getUint16 p ys"
  by (simp add: getUint16_def nth_append)


lemma unat_u32_mod: "unat (cr::u32) mod 4294967296 = unat cr"
  using unsigned_less [of cr, where 'a = nat] by simp

lemma unat_low_byte: "unat (ucast (cr::u32) :: byte) = unat cr mod 256"
  by (simp add: unsigned_ucast_eq take_bit_eq_mod)

lemma le_sum32_upper:
  "(v::nat) mod 65536 + 65536 * (v div 65536 mod 256) + 16777216 * (v div 16777216 mod 256)
     = v mod 4294967296"
  using le_sum32 [of v] by (simp only: le_sum16)

lemma getUint32_inside:
  "p + 4 \<le> length r \<Longrightarrow> getUint32 (length pre + p) (pre @ r @ post) = getUint32 p r"
  by (simp add: getUint32_shift getUint32_prefix)

lemma getUint16_inside:
  "p + 2 \<le> length r \<Longrightarrow> getUint16 (length pre + p) (pre @ r @ post) = getUint16 p r"
  by (simp add: getUint16_shift getUint16_prefix)

lemma take_drop_inside:
  "p + n \<le> length r \<Longrightarrow> take n (drop (length pre + p) (pre @ r @ post)) = take n (drop p r)"
  by simp

lemmas field_reads = getUint16_def getUint32_def le16_def le32_def unat_byte_of_nat
  le_sum16 le_sum32_upper unat_u32_mod unat_low_byte

lemma local_header_fields:
  "getUint32 0 (local_header nb cr sz) = 0x04034b50"
  "getUint16 8 (local_header nb cr sz) = 0"
  "getUint32 14 (local_header nb cr sz) = unat cr"
  "getUint32 18 (local_header nb cr sz) = sz mod 4294967296"
  "getUint32 22 (local_header nb cr sz) = sz mod 4294967296"
  "take 12 (drop 14 (local_header nb cr sz)) = le32 (unat cr) @ le32 sz @ le32 sz"
  by (simp_all add: local_header_def field_reads)

lemma central_entry_fields:
  "getUint32 0 (central_entry nb cr sz ofs) = 0x02014b50"
  "getUint16 10 (central_entry nb cr sz ofs) = 0"
  "getUint32 16 (central_entry nb cr sz ofs) = unat cr"
  "getUint32 20 (central_entry nb cr sz ofs) = sz mod 4294967296"
  "getUint32 24 (central_entry nb cr sz ofs) = sz mod 4294967296"
  "getUint32 42 (central_entry nb cr sz ofs) = ofs mod 4294967296"
  "take 12 (drop 16 (central_entry nb cr sz ofs)) = le32 (unat cr) @ le32 sz @ le32 sz"
  by (simp_all add: central_entry_def field_reads)

lemma end_record_fields:
  "getUint32 0 (end_record n cdSz cdOff) = 0x06054b50"
  "getUint16 4 (end_record n cdSz cdOff) = 0"
  "getUint16 6 (end_record n cdSz cdOff) = 0"
  "getUint16 8 (end_record n cdSz cdOff) = n mod 65536"
  "getUint16 10 (end_record n cdSz cdOff) = n mod 65536"
  "getUint32 12 (end_record n cdSz cdOff) = cdSz mod 4294967296"
  "getUint32 16 (end_record n cdSz cdOff) = cdOff mod 4294967296"
  "getUint16 20 (end_record n cdSz cdOff) = 0"
  by (simp_all add: end_record_def field_reads)

text \<open>Where the records of the \<open>i\<close>-th part lie in the archive.\<close>

lemma locals_split:
  "i < length fs \<Longrightarrow>
     concat (map local_record fs)
       = concat (map local_record (take i fs)) @ local_record (fs ! i)
           @ concat (map local_record (drop (Suc i) fs))"
  using id_take_nth_drop [of i fs] by (metis concat.simps(2) concat_append list.simps(9) map_append)

lemma centrals_split:
  "i < length fs \<Longrightarrow>
     concat (central_entries ofs fs)
       = concat (central_entries ofs (take i fs))
           @ central_entry (utf8 (name (fs ! i))) (crc32 (utf8 (content (fs ! i))))
               (length (utf8 (content (fs ! i)))) (ofs + sum_list (map local_len (take i fs)))
           @ concat (central_entries (ofs + sum_list (map local_len (take (Suc i) fs)))
               (drop (Suc i) fs))"
proof (induction fs arbitrary: i ofs)
  case Nil
  then show ?case by simp
next
  case (Cons f fs)
  show ?case
  proof (cases i)
    case 0
    then show ?thesis by simp
  next
    case (Suc j)
    with Cons.prems have "j < length fs"
      by simp
    from Cons.IH [OF this, of "ofs + local_len f"] Suc show ?thesis
      by (simp add: add.assoc)
  qed
qed

lemma archive_local:
  assumes "i < length files"
  shows "\<exists>pre post. archive files = pre @ local_record (files ! i) @ post
           \<and> length pre = local_pos files i"
proof (intro exI conjI)
  show "archive files
      = concat (map local_record (take i files)) @ local_record (files ! i)
          @ (concat (map local_record (drop (Suc i) files)) @ concat (central_entries 0 files)
             @ end_record (length files) (sum_list (map central_len files))
                 (sum_list (map local_len files)))"
    by (simp add: archive_def locals_split [OF assms])
  show "length (concat (map local_record (take i files))) = local_pos files i"
    by (simp add: length_locals local_pos_def)
qed

lemma archive_central:
  assumes "i < length files"
  shows "\<exists>pre post.
           archive files
             = pre @ central_entry (utf8 (name (files ! i))) (crc32 (utf8 (content (files ! i))))
                       (length (utf8 (content (files ! i)))) (local_pos files i) @ post
           \<and> length pre = central_pos files i"
proof (intro exI conjI)
  show "archive files
      = (concat (map local_record files) @ concat (central_entries 0 (take i files)))
          @ central_entry (utf8 (name (files ! i))) (crc32 (utf8 (content (files ! i))))
              (length (utf8 (content (files ! i)))) (local_pos files i)
          @ (concat (central_entries (0 + sum_list (map local_len (take (Suc i) files)))
               (drop (Suc i) files))
             @ end_record (length files) (sum_list (map central_len files))
                 (sum_list (map local_len files)))"
    by (simp add: archive_def centrals_split [OF assms, of 0] local_pos_def)
  show "length (concat (map local_record files) @ concat (central_entries 0 (take i files)))
      = central_pos files i"
    by (simp add: length_locals length_centrals central_pos_def)
qed

lemma archive_end:
  "archive files
     = (concat (map local_record files) @ concat (central_entries 0 files))
         @ end_record (length files) (sum_list (map central_len files))
             (sum_list (map local_len files)) @ []
   \<and> length (concat (map local_record files) @ concat (central_entries 0 files))
       = sum_list (map local_len files) + sum_list (map central_len files)"
  by (simp add: archive_def length_locals length_centrals)

lemma length_archive:
  "length (archive files)
     = sum_list (map local_len files) + sum_list (map central_len files) + 22"
  by (simp add: archive_def length_locals length_centrals length_end_record)

lemma local_record_fields:
  "getUint32 0 (local_record f) = 0x04034b50"
  "getUint16 8 (local_record f) = 0"
  "getUint32 14 (local_record f) = unat (crc32 (utf8 (content f)))"
  "getUint32 18 (local_record f) = length (utf8 (content f)) mod 4294967296"
  "getUint32 22 (local_record f) = length (utf8 (content f)) mod 4294967296"
  "take 12 (drop 14 (local_record f))
     = le32 (unat (crc32 (utf8 (content f)))) @ le32 (length (utf8 (content f)))
         @ le32 (length (utf8 (content f)))"
  by (simp_all add: local_record_def getUint32_prefix getUint16_prefix length_local_header
      local_header_fields)

text \<open>The fields of the \<open>i\<close>-th part, read from the archive.\<close>

lemma archive_central_reads:
  assumes "i < length files"
  shows "getUint32 (central_pos files i) (archive files) = 0x02014b50"
    and "getUint16 (central_pos files i + 10) (archive files) = 0"
    and "getUint32 (central_pos files i + 16) (archive files)
           = unat (crc32 (utf8 (content (files ! i))))"
    and "getUint32 (central_pos files i + 20) (archive files)
           = length (utf8 (content (files ! i))) mod 4294967296"
    and "getUint32 (central_pos files i + 24) (archive files)
           = length (utf8 (content (files ! i))) mod 4294967296"
    and "getUint32 (central_pos files i + 42) (archive files)
           = local_pos files i mod 4294967296"
    and "take 12 (drop (central_pos files i + 16) (archive files))
           = le32 (unat (crc32 (utf8 (content (files ! i)))))
               @ le32 (length (utf8 (content (files ! i))))
               @ le32 (length (utf8 (content (files ! i))))"
proof -
  from archive_central [OF assms] obtain pre post where
    a: "archive files
          = pre @ central_entry (utf8 (name (files ! i))) (crc32 (utf8 (content (files ! i))))
                    (length (utf8 (content (files ! i)))) (local_pos files i) @ post"
    and p: "central_pos files i = length pre"
    by auto
  show "getUint32 (central_pos files i) (archive files) = 0x02014b50"
    using getUint32_inside [of 0 _ pre post]
    by (simp add: a p length_central_entry central_entry_fields)
  show "getUint16 (central_pos files i + 10) (archive files) = 0"
    unfolding a p by (simp add: getUint16_inside length_central_entry central_entry_fields)
  show "getUint32 (central_pos files i + 16) (archive files)
      = unat (crc32 (utf8 (content (files ! i))))"
    unfolding a p by (simp add: getUint32_inside length_central_entry central_entry_fields)
  show "getUint32 (central_pos files i + 20) (archive files)
      = length (utf8 (content (files ! i))) mod 4294967296"
    unfolding a p by (simp add: getUint32_inside length_central_entry central_entry_fields)
  show "getUint32 (central_pos files i + 24) (archive files)
      = length (utf8 (content (files ! i))) mod 4294967296"
    unfolding a p by (simp add: getUint32_inside length_central_entry central_entry_fields)
  show "getUint32 (central_pos files i + 42) (archive files)
      = local_pos files i mod 4294967296"
    unfolding a p by (simp add: getUint32_inside length_central_entry central_entry_fields)
  show "take 12 (drop (central_pos files i + 16) (archive files))
      = le32 (unat (crc32 (utf8 (content (files ! i)))))
          @ le32 (length (utf8 (content (files ! i))))
          @ le32 (length (utf8 (content (files ! i))))"
    unfolding a p
    by (simp add: take_drop_inside length_central_entry central_entry_fields)
qed


lemma archive_local_reads:
  assumes "i < length files"
  shows "getUint32 (local_pos files i) (archive files) = 0x04034b50"
    and "getUint16 (local_pos files i + 8) (archive files) = 0"
    and "getUint32 (local_pos files i + 14) (archive files)
           = unat (crc32 (utf8 (content (files ! i))))"
    and "getUint32 (local_pos files i + 18) (archive files)
           = length (utf8 (content (files ! i))) mod 4294967296"
    and "getUint32 (local_pos files i + 22) (archive files)
           = length (utf8 (content (files ! i))) mod 4294967296"
    and "take 12 (drop (local_pos files i + 14) (archive files))
           = le32 (unat (crc32 (utf8 (content (files ! i)))))
               @ le32 (length (utf8 (content (files ! i))))
               @ le32 (length (utf8 (content (files ! i))))"
proof -
  from archive_local [OF assms] obtain pre post where
    a: "archive files = pre @ local_record (files ! i) @ post"
    and p: "local_pos files i = length pre"
    by auto
  have n: "30 \<le> length (local_record (files ! i))"
    by (simp add: length_local_record local_len_def)
  show "getUint32 (local_pos files i) (archive files) = 0x04034b50"
    using getUint32_inside [of 0 _ pre post] n
    by (simp add: a p local_record_fields)
  show "getUint16 (local_pos files i + 8) (archive files) = 0"
    unfolding a p using n by (simp add: getUint16_inside local_record_fields)
  show "getUint32 (local_pos files i + 14) (archive files)
      = unat (crc32 (utf8 (content (files ! i))))"
    unfolding a p using n by (simp add: getUint32_inside local_record_fields)
  show "getUint32 (local_pos files i + 18) (archive files)
      = length (utf8 (content (files ! i))) mod 4294967296"
    unfolding a p using n by (simp add: getUint32_inside local_record_fields)
  show "getUint32 (local_pos files i + 22) (archive files)
      = length (utf8 (content (files ! i))) mod 4294967296"
    unfolding a p using n by (simp add: getUint32_inside local_record_fields)
  show "take 12 (drop (local_pos files i + 14) (archive files))
      = le32 (unat (crc32 (utf8 (content (files ! i)))))
          @ le32 (length (utf8 (content (files ! i))))
          @ le32 (length (utf8 (content (files ! i))))"
    unfolding a p using n by (simp add: take_drop_inside local_record_fields)
qed

lemma archive_end_reads:
  fixes files :: "zip_file list"
  defines "e \<equiv> sum_list (map local_len files) + sum_list (map central_len files)"
  shows "getUint32 e (archive files) = 0x06054b50"
    and "getUint16 (e + 4) (archive files) = 0"
    and "getUint16 (e + 6) (archive files) = 0"
    and "getUint16 (e + 8) (archive files) = length files mod 65536"
    and "getUint16 (e + 10) (archive files) = length files mod 65536"
    and "getUint32 (e + 12) (archive files) = sum_list (map central_len files) mod 4294967296"
    and "getUint32 (e + 16) (archive files) = sum_list (map local_len files) mod 4294967296"
    and "getUint16 (e + 20) (archive files) = 0"
    and "drop e (archive files)
           = end_record (length files) (sum_list (map central_len files))
               (sum_list (map local_len files))"
proof -
  let ?pre = "concat (map local_record files) @ concat (central_entries 0 files)"
  let ?r = "end_record (length files) (sum_list (map central_len files))
              (sum_list (map local_len files))"
  have a: "archive files = ?pre @ ?r" and p: "e = length ?pre"
    using archive_end [of files] by (simp_all add: e_def)
  show "getUint32 e (archive files) = 0x06054b50"
    using getUint32_shift [of ?pre 0 ?r] by (simp add: a p end_record_fields)
  show "getUint16 (e + 4) (archive files) = 0"
    unfolding a p by (simp only: getUint16_shift end_record_fields)
  show "getUint16 (e + 6) (archive files) = 0"
    unfolding a p by (simp only: getUint16_shift end_record_fields)
  show "getUint16 (e + 8) (archive files) = length files mod 65536"
    unfolding a p by (simp only: getUint16_shift end_record_fields)
  show "getUint16 (e + 10) (archive files) = length files mod 65536"
    unfolding a p by (simp only: getUint16_shift end_record_fields)
  show "getUint32 (e + 12) (archive files) = sum_list (map central_len files) mod 4294967296"
    unfolding a p by (simp only: getUint32_shift end_record_fields)
  show "getUint32 (e + 16) (archive files) = sum_list (map local_len files) mod 4294967296"
    unfolding a p by (simp only: getUint32_shift end_record_fields)
  show "getUint16 (e + 20) (archive files) = 0"
    unfolding a p by (simp only: getUint16_shift end_record_fields)
  show "drop e (archive files) = ?r"
    unfolding a p by simp
qed

section \<open>Claims about the archive\<close>

text \<open>A text without surrogate pairs is encoded one code unit at a time.\<close>

lemma utf8_single_Cons: "\<not> is_high u \<Longrightarrow> utf8 (u # us) = utf8_unit u @ utf8 us"
  by (cases us) simp_all

lemma length_utf8_replicate:
  "\<not> is_high u \<Longrightarrow> length (utf8 (replicate n u)) = n * length (utf8_unit u)"
  by (induction n) (simp_all add: utf8_single_Cons)

lemma utf8_unit_examples:
  "\<not> is_high 0x41" "utf8_unit 0x41 = [0x41]"
  "\<not> is_high 0x4E2D" "utf8_unit 0x4E2D = [0xE4, 0xB8, 0xAD]"
  by (simp_all add: is_high_def is_low_def utf8_unit_def)

lemma local_len_sample:
  "\<not> is_high c \<Longrightarrow>
     local_len (sample_part nm c n) = 30 + length (utf8 (js nm)) + n * length (utf8_unit c)"
  by (simp add: local_len_def sample_part_def length_utf8_replicate)

lemma utf8_digits:
  "utf8 (js ''1'') = [0x31]" "utf8 (js ''2'') = [0x32]" "utf8 (js ''3'') = [0x33]"
  "utf8 (js ''4'') = [0x34]" "utf8 (js ''5'') = [0x35]" "utf8 (js ''6'') = [0x36]"
  "utf8 (js ''7'') = [0x37]" "utf8 (js ''8'') = [0x38]" "utf8 (js ''9'') = [0x39]"
  by (simp_all add: js_def utf8_unit_def)

text \<open>
  Claim C10. For every list of parts, the archive has as many bytes as the local records
  (30, the name and the content for each part), the central-directory entries (46 and
  the name for each part) and the 22 bytes of the end record together.
\<close>

theorem archive_length:
  "\<exists>out. buildZip files = Some out \<and> buildZipBlob files = Some out
     \<and> length out
         = sum_list (map (\<lambda>f. 30 + length (utf8 (name f)) + length (utf8 (content f))) files)
           + sum_list (map (\<lambda>f. 46 + length (utf8 (name f))) files) + 22"
proof -
  have "local_len = (\<lambda>f. 30 + length (utf8 (name f)) + length (utf8 (content f)))"
    and "central_len = (\<lambda>f. 46 + length (utf8 (name f)))"
    by (rule ext, simp add: local_len_def, rule ext, simp add: central_len_def)
  then show ?thesis
    using length_archive [of files] by (simp add: buildZip_archive buildZipBlob_eq)
qed

text \<open>
  Claim C2, as stated: for every list of parts, the offset field of the \<open>i\<close>-th
  central-directory entry equals the sum of the lengths of the local records before
  the \<open>i\<close>-th. Eight parts of \<open>2^29 - 31\<close> letters \<open>A\<close> each, named \<open>1\<close> to
  \<open>8\<close>, take \<open>2^32\<close> bytes of local records; the field of the ninth part holds four
  bytes: it holds 0.
\<close>

theorem central_offset_wraps:
  "getUint32
     (central_pos
        [sample_part ''1'' 0x41 536870881, sample_part ''2'' 0x41 536870881,
         sample_part ''3'' 0x41 536870881, sample_part ''4'' 0x41 536870881,
         sample_part ''5'' 0x41 536870881, sample_part ''6'' 0x41 536870881,
         sample_part ''7'' 0x41 536870881, sample_part ''8'' 0x41 536870881,
         sample_part ''9'' 0x41 0] 8 + 42)
     (the (buildZip
        [sample_part ''1'' 0x41 536870881, sample_part ''2'' 0x41 536870881,
         sample_part ''3'' 0x41 536870881, sample_part ''4'' 0x41 536870881,
         sample_part ''5'' 0x41 536870881, sample_part ''6'' 0x41 536870881,
         sample_part ''7'' 0x41 536870881, sample_part ''8'' 0x41 536870881,
         sample_part ''9'' 0x41 0])) = 0
   \<and> local_pos
        [sample_part ''1'' 0x41 536870881, sample_part ''2'' 0x41 536870881,
         sample_part ''3'' 0x41 536870881, sample_part ''4'' 0x41 536870881,
         sample_part ''5'' 0x41 536870881, sample_part ''6'' 0x41 536870881,
         sample_part ''7'' 0x41 536870881, sample_part ''8'' 0x41 536870881,
         sample_part ''9'' 0x41 0] 8 = 4294967296"
proof -
  let ?F = "[sample_part ''1'' 0x41 536870881, sample_part ''2'' 0x41 536870881,
         sample_part ''3'' 0x41 536870881, sample_part ''4'' 0x41 536870881,
         sample_part ''5'' 0x41 536870881, sample_part ''6'' 0x41 536870881,
         sample_part ''7'' 0x41 536870881, sample_part ''8'' 0x41 536870881,
         sample_part ''9'' 0x41 0]"
  have len: "8 < length ?F"
    by simp
  have pos: "local_pos ?F 8 = 4294967296"
    by (simp add: local_pos_def local_len_sample utf8_unit_examples utf8_digits)
  from archive_central_reads(6) [OF len] show ?thesis
    by (simp only: buildZip_archive option.sel pos) simp
qed

text \<open>
  Claim C2, amended: for every list of parts, the 4-byte little-endian offset field (at
  byte 42) of the \<open>i\<close>-th central-directory entry in the output equals, modulo
  \<open>2^32\<close>, the sum of the total byte lengths (30 + name length + content length) of
  all local records written before the \<open>i\<close>-th part's local header; it equals that
  sum whenever the sum is below \<open>2^32\<close>. The entry and the local header start with
  their signatures at the positions the lengths give.
\<close>

theorem central_offset_field:
  assumes "i < length files"
  shows "\<exists>out. buildZip files = Some out \<and> buildZipBlob files = Some out
     \<and> getUint32 (central_pos files i) out = 0x02014b50
     \<and> getUint32 (local_pos files i) out = 0x04034b50
     \<and> getUint32 (central_pos files i + 42) out = local_pos files i mod 2 ^ 32
     \<and> (local_pos files i < 2 ^ 32
          \<longrightarrow> getUint32 (central_pos files i + 42) out = local_pos files i)"
  using archive_central_reads(1,6) [OF assms] archive_local_reads(1) [OF assms]
  by (simp add: buildZip_archive buildZipBlob_eq)

lemma utf8_examples:
  "utf8 (js ''a'') = [0x61]" "utf8 (js ''b'') = [0x62]" "utf8 (js ''hi'') = [0x68, 0x69]"
  "utf8 [] = []"
  by (simp_all add: js_def utf8_unit_def is_high_def)

text \<open>Two parts, \<open>a\<close> holding \<open>hi\<close> and \<open>b\<close> holding nothing: the second local
  record starts at byte 33.\<close>

theorem central_offset_field_witness:
  "1 < length [\<lparr>name = js ''a'', content = js ''hi''\<rparr>, \<lparr>name = js ''b'', content = []\<rparr>]
   \<and> local_pos [\<lparr>name = js ''a'', content = js ''hi''\<rparr>, \<lparr>name = js ''b'', content = []\<rparr>] 1
       < 2 ^ 32
   \<and> getUint32
       (central_pos [\<lparr>name = js ''a'', content = js ''hi''\<rparr>, \<lparr>name = js ''b'', content = []\<rparr>] 1
          + 42)
       (the (buildZip [\<lparr>name = js ''a'', content = js ''hi''\<rparr>, \<lparr>name = js ''b'', content = []\<rparr>]))
       = 33"
proof -
  let ?F = "[\<lparr>name = js ''a'', content = js ''hi''\<rparr>, \<lparr>name = js ''b'', content = []\<rparr>]"
  have len: "1 < length ?F"
    by simp
  have pos: "local_pos ?F 1 = 33"
    by (simp add: local_pos_def local_len_def utf8_examples)
  from central_offset_field [OF len] obtain out where
    "buildZip ?F = Some out"
    "local_pos ?F 1 < 2 ^ 32 \<longrightarrow> getUint32 (central_pos ?F 1 + 42) out = local_pos ?F 1"
    by blast
  with pos show ?thesis
    by simp
qed

text \<open>The encoder writes at most three bytes for a code unit, so the content of a part
  stays below \<open>2^32\<close> bytes.\<close>

lemma length_utf8_unit: "length (utf8_unit u) \<le> 3"
  by (simp add: utf8_unit_def Let_def)

lemma length_utf8: "length (utf8 s) \<le> 3 * length s"
proof (induction s rule: utf8.induct)
  case 1
  show ?case by simp
next
  case (2 u)
  show ?case using length_utf8_unit [of u] by simp
next
  case (3 u v vs)
  show ?case
  proof (cases "is_high u \<and> is_low v")
    case True
    with 3 show ?thesis by (simp add: utf8_pair_def Let_def)
  next
    case False
    with 3 length_utf8_unit [of u] show ?thesis by auto
  qed
qed

lemma content_fits:
  assumes "length s \<le> max_string_length"
  shows "length (utf8 s) mod 4294967296 = length (utf8 s)"
proof -
  from assms length_utf8 [of s] have "length (utf8 s) < 4294967296"
    by (simp add: max_string_length_def)
  then show ?thesis
    by simp
qed

text \<open>
  Claim C4. For every part encoded into the archive, the compressed-size and
  uncompressed-size fields both equal the byte length of the part's content
  (compression method 0, stored), and the CRC-32 and both size fields written in the
  central-directory entry are byte for byte those written in the local file header,
  all little-endian. The content of a part is a string of the engine.
\<close>

theorem size_and_crc_fields:
  assumes "i < length files" and "length (content (files ! i)) \<le> max_string_length"
  shows "\<exists>out. buildZip files = Some out \<and> buildZipBlob files = Some out
     \<and> getUint16 (local_pos files i + 8) out = 0
     \<and> getUint16 (central_pos files i + 10) out = 0
     \<and> getUint32 (local_pos files i + 18) out = length (utf8 (content (files ! i)))
     \<and> getUint32 (local_pos files i + 22) out = length (utf8 (content (files ! i)))
     \<and> getUint32 (central_pos files i + 20) out = length (utf8 (content (files ! i)))
     \<and> getUint32 (central_pos files i + 24) out = length (utf8 (content (files ! i)))
     \<and> getUint32 (local_pos files i + 14) out = unat (crc32 (utf8 (content (files ! i))))
     \<and> getUint32 (central_pos files i + 16) out = unat (crc32 (utf8 (content (files ! i))))
     \<and> take 12 (drop (local_pos files i + 14) out)
         = le32 (unat (crc32 (utf8 (content (files ! i)))))
             @ le32 (length (utf8 (content (files ! i))))
             @ le32 (length (utf8 (content (files ! i))))
     \<and> take 12 (drop (central_pos files i + 16) out)
         = take 12 (drop (local_pos files i + 14) out)"
  using archive_central_reads(2-5,7) [OF assms(1)] archive_local_reads(2-6) [OF assms(1)]
    content_fits [OF assms(2)]
  by (simp add: buildZip_archive buildZipBlob_eq)

text \<open>The part \<open>a\<close> holding \<open>hi\<close>: both size fields hold 2, in the local header and in
  the central-directory entry.\<close>

theorem size_and_crc_fields_witness:
  "getUint32 (local_pos [\<lparr>name = js ''a'', content = js ''hi''\<rparr>] 0 + 18)
         (the (buildZip [\<lparr>name = js ''a'', content = js ''hi''\<rparr>])) = 2
   \<and> getUint32 (local_pos [\<lparr>name = js ''a'', content = js ''hi''\<rparr>] 0 + 22)
         (the (buildZip [\<lparr>name = js ''a'', content = js ''hi''\<rparr>])) = 2
   \<and> getUint32 (central_pos [\<lparr>name = js ''a'', content = js ''hi''\<rparr>] 0 + 20)
         (the (buildZip [\<lparr>name = js ''a'', content = js ''hi''\<rparr>])) = 2
   \<and> getUint32 (central_pos [\<lparr>name = js ''a'', content = js ''hi''\<rparr>] 0 + 24)
         (the (buildZip [\<lparr>name = js ''a'', content = js ''hi''\<rparr>])) = 2"
proof -
  let ?F = "[\<lparr>name = js ''a'', content = js ''hi''\<rparr>]"
  have len: "0 < length ?F"
    by simp
  have fits: "length (content (?F ! 0)) \<le> max_string_length"
    by (simp add: max_string_length_def js_def)
  have sz: "length (utf8 (content (?F ! 0))) = 2"
    by (simp add: utf8_examples)
  from size_and_crc_fields [OF len fits] obtain out where
    "buildZip ?F = Some out"
    "getUint32 (local_pos ?F 0 + 18) out = length (utf8 (content (?F ! 0)))"
    "getUint32 (local_pos ?F 0 + 22) out = length (utf8 (content (?F ! 0)))"
    "getUint32 (central_pos ?F 0 + 20) out = length (utf8 (content (?F ! 0)))"
    "getUint32 (central_pos ?F 0 + 24) out = length (utf8 (content (?F ! 0)))"
    by blast
  with sz show ?thesis
    by simp
qed

text \<open>
  Claim C5, as stated: for every list of \<open>n\<close> parts, both entry-count fields of the end
  record equal \<open>n\<close>. For 65536 empty parts named \<open>0\<close> to \<open>65535\<close> the fields
  hold two bytes: they hold 0.
\<close>

theorem entry_count_wraps:
  "getUint16
     (sum_list (map local_len (map numbered_part [0..<65536]))
        + sum_list (map central_len (map numbered_part [0..<65536])) + 8)
     (the (buildZip (map numbered_part [0..<65536]))) = 0
   \<and> length (map numbered_part [0..<65536]) = 65536"
  using archive_end_reads(4) [of "map numbered_part [0..<65536]"]
  by (simp only: buildZip_archive option.sel length_map length_upt) simp

text \<open>
  Claim C5, amended: for every list of \<open>n\<close> parts, the output ends with a 22-byte
  end-of-central-directory record whose signature is \<open>0x06054b50\<close>, whose two
  entry-count fields both equal \<open>n\<close> modulo \<open>2^16\<close>, whose central-directory-size
  field equals the total byte length of the \<open>n\<close> central-directory entries modulo
  \<open>2^32\<close>, and whose central-directory-offset field equals the total byte length of
  all local records modulo \<open>2^32\<close>: the counts and lengths themselves when they are
  below \<open>2^16\<close> and \<open>2^32\<close>. When the list is empty the output is the 22-byte record
  alone, with zero entries and zero central-directory size.
\<close>

theorem end_of_central_directory:
  "\<exists>out. buildZip files = Some out \<and> buildZipBlob files = Some out
     \<and> length out = sum_list (map local_len files) + sum_list (map central_len files) + 22
     \<and> drop (sum_list (map local_len files) + sum_list (map central_len files)) out
         = end_record (length files) (sum_list (map central_len files))
             (sum_list (map local_len files))
     \<and> getUint32 (sum_list (map local_len files) + sum_list (map central_len files)) out
         = 0x06054b50
     \<and> getUint16 (sum_list (map local_len files) + sum_list (map central_len files) + 8) out
         = length files mod 2 ^ 16
     \<and> getUint16 (sum_list (map local_len files) + sum_list (map central_len files) + 10) out
         = length files mod 2 ^ 16
     \<and> getUint32 (sum_list (map local_len files) + sum_list (map central_len files) + 12) out
         = sum_list (map central_len files) mod 2 ^ 32
     \<and> getUint32 (sum_list (map local_len files) + sum_list (map central_len files) + 16) out
         = sum_list (map local_len files) mod 2 ^ 32
     \<and> (length files < 2 ^ 16
          \<longrightarrow> getUint16 (sum_list (map local_len files) + sum_list (map central_len files) + 8)
                out = length files
            \<and> getUint16 (sum_list (map local_len files) + sum_list (map central_len files) + 10)
                out = length files)
     \<and> (sum_list (map central_len files) < 2 ^ 32
          \<longrightarrow> getUint32 (sum_list (map local_len files) + sum_list (map central_len files) + 12)
                out = sum_list (map central_len files))
     \<and> (sum_list (map local_len files) < 2 ^ 32
          \<longrightarrow> getUint32 (sum_list (map local_len files) + sum_list (map central_len files) + 16)
                out = sum_list (map local_len files))
     \<and> buildZip [] = Some [0x50, 0x4b, 0x05, 0x06, 0, 0, 0, 0, 0, 0, 0, 0, 0, 0, 0, 0, 0, 0,
                             0, 0, 0, 0]
     \<and> buildZipBlob [] = buildZip []"
proof -
  have empty: "buildZip [] = Some [0x50, 0x4b, 0x05, 0x06, 0, 0, 0, 0, 0, 0, 0, 0, 0, 0, 0, 0,
      0, 0, 0, 0, 0, 0]"
    by (simp add: buildZip_archive archive_def end_record_def le16_def le32_def)
  show ?thesis
    using archive_end_reads(1,4,5,6,7,9) [of files] length_archive [of files] empty
    by (simp add: buildZip_archive buildZipBlob_eq)
qed

text \<open>One part, \<open>a\<close> holding \<open>hi\<close>: one entry, 47 bytes of central directory after 33
  bytes of local record.\<close>

theorem end_of_central_directory_witness:
  "length [\<lparr>name = js ''a'', content = js ''hi''\<rparr>] < 2 ^ 16
   \<and> sum_list (map central_len [\<lparr>name = js ''a'', content = js ''hi''\<rparr>]) < 2 ^ 32
   \<and> sum_list (map local_len [\<lparr>name = js ''a'', content = js ''hi''\<rparr>]) < 2 ^ 32
   \<and> getUint16 (80 + 8) (the (buildZip [\<lparr>name = js ''a'', content = js ''hi''\<rparr>])) = 1
   \<and> getUint16 (80 + 10) (the (buildZip [\<lparr>name = js ''a'', content = js ''hi''\<rparr>])) = 1
   \<and> getUint32 (80 + 12) (the (buildZip [\<lparr>name = js ''a'', content = js ''hi''\<rparr>])) = 47
   \<and> getUint32 (80 + 16) (the (buildZip [\<lparr>name = js ''a'', content = js ''hi''\<rparr>])) = 33
   \<and> length (the (buildZip [\<lparr>name = js ''a'', content = js ''hi''\<rparr>])) = 102"
proof -
  let ?F = "[\<lparr>name = js ''a'', content = js ''hi''\<rparr>]"
  have l: "sum_list (map local_len ?F) = 33" and c: "sum_list (map central_len ?F) = 47"
    by (simp_all add: local_len_def central_len_def utf8_examples)
  from end_of_central_directory [of ?F] show ?thesis
    unfolding l c by auto
qed

end
